theory Spec2Isabelle
  imports Complex_Main
begin

section \<open>Job-shop simulation engine: the model\<close>

text \<open>
  A shallow embedding of \<^verbatim>\<open>src/services/simulationEngine.ts\<close> and of the types it uses
  from \<^verbatim>\<open>src/types.ts\<close>.

  Numbers. A JavaScript \<^verbatim>\<open>number\<close> that measures time, money or a ratio is modelled
  by an exact real: the rounding of these doubles and the sign of zero are not part of
  the model. The fields that only ever hold integers (seed and generator state, server
  counts, replication count, WIP counter) are \<open>int\<close>, and lengths are \<open>nat\<close>. The integer
  arithmetic of the random generator is that of the doubles, rounding and overflow
  included (see below). \<^verbatim>\<open>Math.log\<close> is the natural logarithm \<open>ln\<close> (it is only ever
  applied to a number in the open interval from 0 to 2). NaN enters a run in two places:
  the throughput of a run whose duration is 0, and every draw of a generator whose seed
  is so large that its product with 9301 is not a finite double. Both are written out.

  Objects. The engine threads \<^verbatim>\<open>Job\<close> objects by reference through the job array, the
  events and the three wait queues and mutates them in place. The model keeps the jobs in
  one list (the array \<^verbatim>\<open>jobs\<close>, in creation order) and lets events and wait queues hold
  the position of the job in that list.
\<close>

subsection \<open>Types (types.ts)\<close>

datatype ProductType = TypeA | TypeB | TypeC | TypeD

record SimulationConfig =
  duration :: real
  mouldingMachines :: int
  inspectionStations :: int
  packagingMachines :: int
  arrivalIntervalMean :: real
  degradationCostPerMinute :: real
  degradationThreshold :: real
  replications :: int
  seed :: int

text \<open>
  An optional timestamp is \<open>None\<close> while the property is \<^verbatim>\<open>undefined\<close>. The product type
  is \<open>None\<close> when \<^verbatim>\<open>choice\<close> read outside its array (the value \<^verbatim>\<open>undefined\<close>).
\<close>

record Job =
  job_id :: nat
  productType :: "ProductType option"
  arrivalTime :: real
  mouldingStartTime :: "real option"
  mouldingEndTime :: "real option"
  inspectionStartTime :: "real option"
  inspectionEndTime :: "real option"
  packagingStartTime :: "real option"
  packagingEndTime :: "real option"
  finished :: bool

record WaitStats =
  avg :: real
  p90 :: real
  wmax :: real

record ConfidenceInterval =
  mean :: real
  lower :: real
  upper :: real

text \<open>
  The three nested objects \<^verbatim>\<open>waitTimes\<close>, \<^verbatim>\<open>waitStats\<close> and \<^verbatim>\<open>machineUtilization\<close> of
  \<^verbatim>\<open>SimulationStats\<close> are flattened: \<open>waitTimes_moulding\<close> is \<^verbatim>\<open>waitTimes.moulding\<close>.
\<close>

record SimulationStats =
  totalJobs :: int
  completedJobs :: int
  throughput :: "real option"
  avgWip :: "real option"
  serviceLevel :: real
  avgLeadTime :: real
  leadTimeCI :: ConfidenceInterval
  totalDegradationCost :: real
  avgDegradationCostPerPart :: real
  costCI :: ConfidenceInterval
  waitTimes_moulding :: "real list"
  waitTimes_inspection :: "real list"
  waitTimes_packaging :: "real list"
  waitStats_moulding :: WaitStats
  waitStats_inspection :: WaitStats
  waitStats_packaging :: WaitStats
  machineUtilization_moulding :: real
  machineUtilization_inspection :: real
  machineUtilization_packaging :: real

subsection \<open>Numbers\<close>

text \<open>
  The numbers of the program are IEEE doubles. Times, means, costs and statistics are
  modelled as real numbers, and a statistic that can be NaN as an optional real. The state
  of the random generator is an integer-valued double on which \<^verbatim>\<open>*\<close>, \<^verbatim>\<open>+\<close> and \<^verbatim>\<open>%\<close> act;
  it is modelled as an integer, with the rounding of the doubles written out.

  \<open>ulp n\<close> is the distance between the doubles around \<open>n\<close> (1 below \<open>2^53\<close>, 2 from there
  to \<open>2^54\<close>, and so on), \<open>round_even n\<close> the multiple of \<open>ulp n\<close> nearest to \<open>n\<close>, the even
  one of two that are equally near, and \<open>double_of x\<close> the double nearest to the integer
  \<open>x\<close>. An integer at or beyond \<open>2^1024 - 2^970\<close> rounds to an infinity.
\<close>

function ulp :: "nat \<Rightarrow> nat" where
  "ulp n = (if n < 2 ^ 53 then 1 else 2 * ulp (n div 2))"
  by pat_completeness auto
termination by (relation "measure id") auto

declare ulp.simps [simp del]

definition round_even :: "nat \<Rightarrow> nat" where
  "round_even n = (let u = ulp n; q = n div u; r = n mod u
                   in if 2 * r < u \<or> (2 * r = u \<and> even q) then q * u else (q + 1) * u)"

definition double_of :: "int \<Rightarrow> int" where
  "double_of x = sgn x * int (round_even (nat \<bar>x\<bar>))"

definition finite_double :: "int \<Rightarrow> bool" where
  "finite_double x = (\<bar>x\<bar> < 2 ^ 1024 - 2 ^ 970)"

text \<open>
  The remainder operator \<^verbatim>\<open>%\<close> of JavaScript truncates: the result has the sign of the
  dividend. On doubles it is exact.
\<close>

definition js_rem :: "int \<Rightarrow> int \<Rightarrow> int" where
  "js_rem a b = sgn a * (\<bar>a\<bar> mod \<bar>b\<bar>)"

subsection \<open>class Random\<close>

text \<open>
  The object state of \<^verbatim>\<open>Random\<close> is its field \<^verbatim>\<open>seed\<close>; every method takes it and
  returns the value together with the new state.

  First the methods on a state \<open>s\<close> whose product \<open>s * 9301\<close> is a finite double: the
  product and the sum are rounded, the remainder is exact, and the state stays a number.
\<close>

definition rnd_next :: "int \<Rightarrow> real \<times> int" where
  "rnd_next s = (let s' = js_rem (double_of (double_of (s * 9301) + 49297)) 233280
                 in (real_of_int s' / 233280, s'))"

definition exponential :: "int \<Rightarrow> real \<Rightarrow> real \<times> int" where
  "exponential s m = (let (u, s') = rnd_next s in (- ln (1 - u) * m, s'))"

definition choice :: "int \<Rightarrow> 'a list \<Rightarrow> 'a option \<times> int" where
  "choice s items =
     (let (u, s') = rnd_next s;
          idx = \<lfloor>u * real (length items)\<rfloor>
      in (if 0 \<le> idx \<and> idx < int (length items) then Some (items ! nat idx) else None, s'))"

text \<open>The state after \<open>n\<close> uniform draws.\<close>

fun draws :: "nat \<Rightarrow> int \<Rightarrow> int" where
  "draws 0 s = s"
| "draws (Suc n) s = draws n (snd (rnd_next s))"

text \<open>
  The methods in general. The state is \<open>None\<close> when it is not a finite number (an infinity
  or NaN), and a value is \<open>None\<close> when it is NaN (\<^verbatim>\<open>undefined\<close> for \<^verbatim>\<open>choice\<close>). A product
  \<open>s * 9301\<close> beyond the doubles is an infinity, and so is the sum; the remainder of an
  infinity is NaN, and from NaN every operation gives NaN. The constructor stores the
  seed it is given, a double: the integer of the field \<open>seed\<close> stands for the double
  nearest to it, which is the integer itself up to \<open>2^53\<close>.
\<close>

definition new_Random :: "int \<Rightarrow> int option" where
  "new_Random sd = (if finite_double sd then Some (double_of sd) else None)"

definition Random_next :: "int option \<Rightarrow> real option \<times> int option" where
  "Random_next st =
     (case st of
        None \<Rightarrow> (None, None)
      | Some s \<Rightarrow>
          if finite_double (s * 9301) \<and> finite_double (double_of (s * 9301) + 49297)
          then (let (u, s') = rnd_next s in (Some u, Some s'))
          else (None, None))"

definition Random_exponential :: "int option \<Rightarrow> real \<Rightarrow> real option \<times> int option" where
  "Random_exponential st m =
     (let (u, st') = Random_next st
      in (case u of None \<Rightarrow> None | Some v \<Rightarrow> Some (- ln (1 - v) * m), st'))"

definition Random_choice :: "int option \<Rightarrow> 'a list \<Rightarrow> 'a option \<times> int option" where
  "Random_choice st items =
     (let (u, st') = Random_next st
      in (case u of
            None \<Rightarrow> None
          | Some v \<Rightarrow>
              (let idx = \<lfloor>v * real (length items)\<rfloor>
               in if 0 \<le> idx \<and> idx < int (length items) then Some (items ! nat idx) else None),
          st'))"

fun Random_draws :: "nat \<Rightarrow> int option \<Rightarrow> int option" where
  "Random_draws 0 st = st"
| "Random_draws (Suc n) st = Random_draws n (snd (Random_next st))"

subsection \<open>Events and the state of one run\<close>

datatype error = TypeError

datatype EventType = ARRIVAL | MOULDING_FINISH | INSPECTION_FINISH | PACKAGING_FINISH

record SimEvent =
  time :: real
  type :: EventType
  job :: "nat option"

datatype Stage = Moulding | Inspection | Packaging

text \<open>
  The local variables of \<^verbatim>\<open>runSingleSimulation\<close>; \<open>rng\<close> is the state of \<^verbatim>\<open>random\<close>.
\<close>

record SimState =
  rng :: int
  currentTime :: real
  queue :: "SimEvent list"
  jobs :: "Job list"
  mouldingFree :: int
  inspectionFree :: int
  packagingFree :: int
  mouldingQueue :: "nat list"
  inspectionQueue :: "nat list"
  packagingQueue :: "nat list"
  totalMouldingBusyTime :: real
  totalInspectionBusyTime :: real
  totalPackagingBusyTime :: real
  lastEventTime :: real
  wipArea :: real
  currentWip :: int

text \<open>
  \<^verbatim>\<open>schedule\<close> pushes the event and sorts the whole array by time.
  \<^verbatim>\<open>Array.prototype.sort\<close> is a stable sort (ECMAScript 2019), and so is \<open>sort_key\<close>.
\<close>

definition schedule :: "EventType \<Rightarrow> real \<Rightarrow> nat option \<Rightarrow> SimEvent list \<Rightarrow> SimEvent list" where
  "schedule ty t j q = sort_key time (q @ [\<lparr>time = t, type = ty, job = j\<rparr>])"

definition baseMean :: "Stage \<Rightarrow> ProductType option \<Rightarrow> real" where
  "baseMean stage ty =
     (let b = (case ty of Some TypeA \<Rightarrow> 10 | Some TypeB \<Rightarrow> 15 | Some TypeC \<Rightarrow> 20
                | Some TypeD \<Rightarrow> 12 | None \<Rightarrow> 10)
      in case stage of Moulding \<Rightarrow> b | Inspection \<Rightarrow> b * (8 / 10) | Packaging \<Rightarrow> b * (6 / 10))"

definition getProcessTime :: "Stage \<Rightarrow> ProductType option \<Rightarrow> int \<Rightarrow> real \<times> int" where
  "getProcessTime stage ty r = exponential r (baseMean stage ty)"

text \<open>A property assignment on the job object at position \<open>j\<close> of the job array.\<close>

definition upd_job :: "nat \<Rightarrow> (Job \<Rightarrow> Job) \<Rightarrow> Job list \<Rightarrow> Job list" where
  "upd_job j f js = js[j := f (js ! j)]"

text \<open>
  The truth value of an optional number in a condition: \<^verbatim>\<open>undefined\<close> and 0 are false.
\<close>

definition truthy :: "real option \<Rightarrow> bool" where
  "truthy x = (case x of None \<Rightarrow> False | Some v \<Rightarrow> v \<noteq> 0)"

text \<open>
  The block that puts a job into service occurs twice for every stage in the source (for
  the job that just came, and for the head of the wait queue): take a server, stamp the
  start time, draw the process time, schedule the finish event.
\<close>

definition start_moulding :: "nat \<Rightarrow> SimState \<Rightarrow> SimState" where
  "start_moulding j s =
     (let s1 = s\<lparr>mouldingFree := mouldingFree s - 1,
                 jobs := upd_job j (\<lambda>b. b\<lparr>mouldingStartTime := Some (currentTime s)\<rparr>) (jobs s)\<rparr>;
          (y, r) = getProcessTime Moulding (productType (jobs s1 ! j)) (rng s1)
      in s1\<lparr>rng := r, queue := schedule MOULDING_FINISH (currentTime s1 + y) (Some j) (queue s1)\<rparr>)"

definition start_inspection :: "nat \<Rightarrow> SimState \<Rightarrow> SimState" where
  "start_inspection j s =
     (let s1 = s\<lparr>inspectionFree := inspectionFree s - 1,
                 jobs := upd_job j (\<lambda>b. b\<lparr>inspectionStartTime := Some (currentTime s)\<rparr>) (jobs s)\<rparr>;
          (y, r) = getProcessTime Inspection (productType (jobs s1 ! j)) (rng s1)
      in s1\<lparr>rng := r, queue := schedule INSPECTION_FINISH (currentTime s1 + y) (Some j) (queue s1)\<rparr>)"

definition start_packaging :: "nat \<Rightarrow> SimState \<Rightarrow> SimState" where
  "start_packaging j s =
     (let s1 = s\<lparr>packagingFree := packagingFree s - 1,
                 jobs := upd_job j (\<lambda>b. b\<lparr>packagingStartTime := Some (currentTime s)\<rparr>) (jobs s)\<rparr>;
          (y, r) = getProcessTime Packaging (productType (jobs s1 ! j)) (rng s1)
      in s1\<lparr>rng := r, queue := schedule PACKAGING_FINISH (currentTime s1 + y) (Some j) (queue s1)\<rparr>)"

text \<open>
  The statements of the four cases of the \<^verbatim>\<open>switch\<close>, block by block and in the order
  of the source. A job that comes to a stage is put into service when a server is free
  and is appended to the wait queue of the stage otherwise.
\<close>

definition dispatch_moulding :: "nat \<Rightarrow> SimState \<Rightarrow> SimState" where
  "dispatch_moulding j s =
     (if mouldingFree s > 0 then start_moulding j s
      else s\<lparr>mouldingQueue := mouldingQueue s @ [j]\<rparr>)"

definition dispatch_inspection :: "nat \<Rightarrow> SimState \<Rightarrow> SimState" where
  "dispatch_inspection j s =
     (if inspectionFree s > 0 then start_inspection j s
      else s\<lparr>inspectionQueue := inspectionQueue s @ [j]\<rparr>)"

definition dispatch_packaging :: "nat \<Rightarrow> SimState \<Rightarrow> SimState" where
  "dispatch_packaging j s =
     (if packagingFree s > 0 then start_packaging j s
      else s\<lparr>packagingQueue := packagingQueue s @ [j]\<rparr>)"

text \<open>After a finish event the head of the wait queue of the stage, if any, goes into service.\<close>

definition pull_moulding :: "SimState \<Rightarrow> SimState" where
  "pull_moulding s =
     (case mouldingQueue s of
        [] \<Rightarrow> s
      | n # rest \<Rightarrow> start_moulding n (s\<lparr>mouldingQueue := rest\<rparr>))"

definition pull_inspection :: "SimState \<Rightarrow> SimState" where
  "pull_inspection s =
     (case inspectionQueue s of
        [] \<Rightarrow> s
      | n # rest \<Rightarrow> start_inspection n (s\<lparr>inspectionQueue := rest\<rparr>))"

definition pull_packaging :: "SimState \<Rightarrow> SimState" where
  "pull_packaging s =
     (case packagingQueue s of
        [] \<Rightarrow> s
      | n # rest \<Rightarrow> start_packaging n (s\<lparr>packagingQueue := rest\<rparr>))"

text \<open>
  The first statements of a finish case: stamp the end time, add the service time to the
  busy time of the stage if the start time is truthy, give the server back.
\<close>

definition release_moulding :: "nat \<Rightarrow> SimState \<Rightarrow> SimState" where
  "release_moulding j s =
     (let s1 = s\<lparr>jobs := upd_job j (\<lambda>b. b\<lparr>mouldingEndTime := Some (currentTime s)\<rparr>) (jobs s)\<rparr>;
          s2 = (case mouldingStartTime (jobs s1 ! j) of
                  None \<Rightarrow> s1
                | Some t0 \<Rightarrow> if t0 \<noteq> 0
                    then s1\<lparr>totalMouldingBusyTime := totalMouldingBusyTime s1 + (currentTime s1 - t0)\<rparr>
                    else s1)
      in s2\<lparr>mouldingFree := mouldingFree s2 + 1\<rparr>)"

definition release_inspection :: "nat \<Rightarrow> SimState \<Rightarrow> SimState" where
  "release_inspection j s =
     (let s1 = s\<lparr>jobs := upd_job j (\<lambda>b. b\<lparr>inspectionEndTime := Some (currentTime s)\<rparr>) (jobs s)\<rparr>;
          s2 = (case inspectionStartTime (jobs s1 ! j) of
                  None \<Rightarrow> s1
                | Some t0 \<Rightarrow> if t0 \<noteq> 0
                    then s1\<lparr>totalInspectionBusyTime := totalInspectionBusyTime s1 + (currentTime s1 - t0)\<rparr>
                    else s1)
      in s2\<lparr>inspectionFree := inspectionFree s2 + 1\<rparr>)"

definition release_packaging :: "nat \<Rightarrow> SimState \<Rightarrow> SimState" where
  "release_packaging j s =
     (let s0 = s\<lparr>currentWip := currentWip s - 1\<rparr>;
          s1 = s0\<lparr>jobs := upd_job j (\<lambda>b. b\<lparr>packagingEndTime := Some (currentTime s0)\<rparr>) (jobs s0)\<rparr>;
          s2 = (case packagingStartTime (jobs s1 ! j) of
                  None \<Rightarrow> s1
                | Some t0 \<Rightarrow> if t0 \<noteq> 0
                    then s1\<lparr>totalPackagingBusyTime := totalPackagingBusyTime s1 + (currentTime s1 - t0)\<rparr>
                    else s1)
      in s2\<lparr>jobs := upd_job j (\<lambda>b. b\<lparr>finished := True\<rparr>) (jobs s2),
            packagingFree := packagingFree s2 + 1\<rparr>)"

text \<open>The first statements of the arrival case: count the job, create it, push it.\<close>

definition create_job :: "SimState \<Rightarrow> SimState" where
  "create_job s =
     (let s1 = s\<lparr>currentWip := currentWip s + 1\<rparr>;
          (pt, r) = choice (rng s1) [TypeA, TypeB, TypeC, TypeD];
          b = \<lparr>job_id = length (jobs s1) + 1, productType = pt, arrivalTime = currentTime s1,
               mouldingStartTime = None, mouldingEndTime = None,
               inspectionStartTime = None, inspectionEndTime = None,
               packagingStartTime = None, packagingEndTime = None, finished = False\<rparr>
      in s1\<lparr>rng := r, jobs := jobs s1 @ [b]\<rparr>)"

definition schedule_next_arrival :: "SimulationConfig \<Rightarrow> SimState \<Rightarrow> SimState" where
  "schedule_next_arrival c s =
     (let (x, r) = exponential (rng s) (arrivalIntervalMean c);
          nextArrival = currentTime s + x;
          s1 = s\<lparr>rng := r\<rparr>
      in if nextArrival < duration c
         then s1\<lparr>queue := schedule ARRIVAL nextArrival None (queue s1)\<rparr> else s1)"

text \<open>The four cases.\<close>

definition on_arrival :: "SimulationConfig \<Rightarrow> SimState \<Rightarrow> SimState" where
  "on_arrival c s = dispatch_moulding (length (jobs s)) (schedule_next_arrival c (create_job s))"

definition on_moulding_finish :: "nat \<Rightarrow> SimState \<Rightarrow> SimState" where
  "on_moulding_finish j s = dispatch_inspection j (pull_moulding (release_moulding j s))"

definition on_inspection_finish :: "nat \<Rightarrow> SimState \<Rightarrow> SimState" where
  "on_inspection_finish j s = dispatch_packaging j (pull_inspection (release_inspection j s))"

definition on_packaging_finish :: "nat \<Rightarrow> SimState \<Rightarrow> SimState" where
  "on_packaging_finish j s = pull_packaging (release_packaging j s)"

text \<open>
  One pass through the loop body for the event \<open>ev\<close> that \<^verbatim>\<open>queue.shift()\<close> returned
  (the state \<open>s\<close> already has the rest of the queue). A finish event without a job makes
  the assignment to a property of \<^verbatim>\<open>event.job!\<close> throw a TypeError.
\<close>

definition advance_clock :: "SimEvent \<Rightarrow> SimState \<Rightarrow> SimState" where
  "advance_clock ev s =
     s\<lparr>wipArea := wipArea s + real_of_int (currentWip s) * (time ev - lastEventTime s),
       lastEventTime := time ev,
       currentTime := time ev\<rparr>"

definition process_event :: "SimulationConfig \<Rightarrow> SimEvent \<Rightarrow> SimState \<Rightarrow> error + SimState" where
  "process_event c ev s =
     (let s1 = advance_clock ev s
      in case type ev of
           ARRIVAL \<Rightarrow> Inr (on_arrival c s1)
         | MOULDING_FINISH \<Rightarrow>
             (case job ev of None \<Rightarrow> Inl TypeError | Some j \<Rightarrow> Inr (on_moulding_finish j s1))
         | INSPECTION_FINISH \<Rightarrow>
             (case job ev of None \<Rightarrow> Inl TypeError | Some j \<Rightarrow> Inr (on_inspection_finish j s1))
         | PACKAGING_FINISH \<Rightarrow>
             (case job ev of None \<Rightarrow> Inl TypeError | Some j \<Rightarrow> Inr (on_packaging_finish j s1)))"

text \<open>
  The \<^verbatim>\<open>while\<close> loop. It need not end (with a mean inter-arrival time of 0 every arrival
  schedules the next one at the same instant): \<open>None\<close> is the run that does not return.
\<close>

partial_function (option) loop :: "SimulationConfig \<Rightarrow> SimState \<Rightarrow> (error + SimState) option" where
  "loop c s =
     (case queue s of
        [] \<Rightarrow> Some (Inr s)
      | ev # rest \<Rightarrow>
          if currentTime s < duration c then
            (case process_event c ev (s\<lparr>queue := rest\<rparr>) of
               Inl e \<Rightarrow> Some (Inl e)
             | Inr s' \<Rightarrow> loop c s')
          else Some (Inr s))"

text \<open>
  The state when the loop is entered: the first arrival is scheduled. This is the state
  of a run whose first draw is a number; the other run is \<open>nan_stats\<close> below.
\<close>

definition init_state :: "SimulationConfig \<Rightarrow> SimState" where
  "init_state c =
     (let (x, r) = exponential (double_of (seed c)) (arrivalIntervalMean c)
      in \<lparr>rng = r, currentTime = 0, queue = schedule ARRIVAL x None [], jobs = [],
          mouldingFree = mouldingMachines c, inspectionFree = inspectionStations c,
          packagingFree = packagingMachines c,
          mouldingQueue = [], inspectionQueue = [], packagingQueue = [],
          totalMouldingBusyTime = 0, totalInspectionBusyTime = 0, totalPackagingBusyTime = 0,
          lastEventTime = 0, wipArea = 0, currentWip = 0\<rparr>)"

subsection \<open>Statistics of one run\<close>

definition safeDiv :: "real \<Rightarrow> real \<Rightarrow> real" where
  "safeDiv n d = (if d = 0 then 0 else n / d)"

text \<open>The three wait arrays, the degradation total and the lead-time total of \<^verbatim>\<open>jobs.forEach\<close>.\<close>

definition wait_m :: "Job \<Rightarrow> real list" where
  "wait_m b = (case mouldingStartTime b of
       Some t \<Rightarrow> if t \<noteq> 0 then [t - arrivalTime b] else []
     | None \<Rightarrow> [])"

definition wait_i :: "Job \<Rightarrow> real list" where
  "wait_i b = (case (inspectionStartTime b, mouldingEndTime b) of
       (Some t, Some e) \<Rightarrow> if t \<noteq> 0 \<and> e \<noteq> 0 then [t - e] else []
     | _ \<Rightarrow> [])"

definition wait_p :: "Job \<Rightarrow> real list" where
  "wait_p b = (case (packagingStartTime b, inspectionEndTime b) of
       (Some t, Some e) \<Rightarrow> if t \<noteq> 0 \<and> e \<noteq> 0 then [t - e] else []
     | _ \<Rightarrow> [])"

definition degradation :: "SimulationConfig \<Rightarrow> Job \<Rightarrow> real" where
  "degradation c b =
     sum_list (map (\<lambda>wait. max 0 (wait - degradationThreshold c) * degradationCostPerMinute c)
                   (wait_i b))"

definition leadTime :: "Job \<Rightarrow> real" where
  "leadTime b = (case packagingEndTime b of
       Some e \<Rightarrow> if finished b \<and> e \<noteq> 0 then e - arrivalTime b else 0
     | None \<Rightarrow> 0)"

definition calcStats :: "real list \<Rightarrow> WaitStats" where
  "calcStats arr =
     (if length arr = 0 then \<lparr>avg = 0, p90 = 0, wmax = 0\<rparr>
      else let sorted_arr = sort arr;
               p90Idx = nat \<lfloor>real (length arr) * (9 / 10)\<rfloor>
           in \<lparr>avg = sum_list sorted_arr / real (length arr),
               p90 = sorted_arr ! p90Idx,
               wmax = sorted_arr ! (length arr - 1)\<rparr>)"

text \<open>
  \<^verbatim>\<open>calcStats\<close> sorts its argument in place, and \<^verbatim>\<open>waitTimes\<close> holds the same three array
  objects: the wait arrays of the result are the sorted ones.
\<close>

definition run_stats :: "SimulationConfig \<Rightarrow> SimState \<Rightarrow> SimulationStats" where
  "run_stats c s =
     (let completed = filter finished (jobs s);
          totalLeadTime = sum_list (map leadTime (jobs s));
          totalDegradation = sum_list (map (degradation c) (jobs s));
          waits_m = concat (map wait_m (jobs s));
          waits_i = concat (map wait_i (jobs s));
          waits_p = concat (map wait_p (jobs s));
          avgLead = safeDiv totalLeadTime (real (length completed));
          avgCost = safeDiv totalDegradation (real (length (jobs s)));
          goodServiceCount = length (filter (\<lambda>w. w < 5) waits_i);
          sl = safeDiv (real goodServiceCount) (real (length waits_i))
      in \<lparr>totalJobs = int (length (jobs s)),
          completedJobs = int (length completed),
          throughput = (if duration c = 0 then None
                        else Some (real (length completed) / (duration c / 60))),
          avgWip = Some (safeDiv (wipArea s) (duration c)),
          serviceLevel = sl,
          avgLeadTime = avgLead,
          leadTimeCI = \<lparr>mean = avgLead, lower = avgLead, upper = avgLead\<rparr>,
          totalDegradationCost = totalDegradation,
          avgDegradationCostPerPart = avgCost,
          costCI = \<lparr>mean = avgCost, lower = avgCost, upper = avgCost\<rparr>,
          waitTimes_moulding = sort waits_m,
          waitTimes_inspection = sort waits_i,
          waitTimes_packaging = sort waits_p,
          waitStats_moulding = calcStats waits_m,
          waitStats_inspection = calcStats waits_i,
          waitStats_packaging = calcStats waits_p,
          machineUtilization_moulding =
            safeDiv (totalMouldingBusyTime s) (duration c * real_of_int (mouldingMachines c)),
          machineUtilization_inspection =
            safeDiv (totalInspectionBusyTime s) (duration c * real_of_int (inspectionStations c)),
          machineUtilization_packaging =
            safeDiv (totalPackagingBusyTime s) (duration c * real_of_int (packagingMachines c))\<rparr>)"

text \<open>
  The run whose first draw is NaN. Every later draw is NaN as well. The first arrival is
  scheduled at time NaN. With a duration of 0 or less the loop is not entered and all
  statistics are those of the empty run. Otherwise the arrival is processed:
  \<open>wipArea\<close> becomes \<open>0 + 0 * (NaN - 0)\<close>, which is NaN, the clock becomes NaN, one job
  is created, its next arrival at time NaN is not below the duration and is not
  scheduled, and the job starts moulding at time NaN (or waits, when there is no moulding
  machine). Then the guard \<^verbatim>\<open>currentTime < config.duration\<close> is false and the loop ends.
  The job is not finished and none of its timestamps is truthy, so that every total is 0
  and every wait array is empty; the average WIP is \<open>NaN / duration\<close>.
\<close>

definition zero_stats :: SimulationStats where
  "zero_stats =
     \<lparr>totalJobs = 0, completedJobs = 0, throughput = Some 0, avgWip = Some 0,
      serviceLevel = 0, avgLeadTime = 0, leadTimeCI = \<lparr>mean = 0, lower = 0, upper = 0\<rparr>,
      totalDegradationCost = 0, avgDegradationCostPerPart = 0,
      costCI = \<lparr>mean = 0, lower = 0, upper = 0\<rparr>,
      waitTimes_moulding = [], waitTimes_inspection = [], waitTimes_packaging = [],
      waitStats_moulding = \<lparr>avg = 0, p90 = 0, wmax = 0\<rparr>,
      waitStats_inspection = \<lparr>avg = 0, p90 = 0, wmax = 0\<rparr>,
      waitStats_packaging = \<lparr>avg = 0, p90 = 0, wmax = 0\<rparr>,
      machineUtilization_moulding = 0, machineUtilization_inspection = 0,
      machineUtilization_packaging = 0\<rparr>"

definition nan_stats :: "SimulationConfig \<Rightarrow> SimulationStats" where
  "nan_stats c =
     (if 0 < duration c then zero_stats\<lparr>totalJobs := 1, avgWip := None\<rparr>
      else zero_stats\<lparr>throughput := (if duration c = 0 then None else Some 0)\<rparr>)"

definition runSingleSimulation :: "SimulationConfig \<Rightarrow> (error + SimulationStats) option" where
  "runSingleSimulation c =
     (case fst (Random_exponential (new_Random (seed c)) (arrivalIntervalMean c)) of
        None \<Rightarrow> Some (Inr (nan_stats c))
      | Some x \<Rightarrow>
          (case loop c (init_state c) of
             None \<Rightarrow> None
           | Some (Inl e) \<Rightarrow> Some (Inl e)
           | Some (Inr s) \<Rightarrow> Some (Inr (run_stats c s))))"

subsection \<open>Replications\<close>

definition avg_of :: "(SimulationStats \<Rightarrow> real) \<Rightarrow> SimulationStats list \<Rightarrow> real" where
  "avg_of extractor runs = sum_list (map extractor runs) / real (length runs)"

text \<open>The mean of numbers that can be NaN is NaN as soon as one of them is.\<close>

definition avg_nan :: "(SimulationStats \<Rightarrow> real option) \<Rightarrow> SimulationStats list \<Rightarrow> real option" where
  "avg_nan extractor runs =
     (if list_all (\<lambda>s. extractor s \<noteq> None) runs
      then Some (sum_list (map (\<lambda>s. the (extractor s)) runs) / real (length runs))
      else None)"

definition calcCI :: "(SimulationStats \<Rightarrow> real) \<Rightarrow> SimulationStats list \<Rightarrow> ConfidenceInterval" where
  "calcCI extractor runs =
     (let vals = map extractor runs;
          n = length runs;
          m = sum_list vals / real n;
          variance = sum_list (map (\<lambda>v. (v - m)\<^sup>2) vals)
                     / (if int n - 1 = 0 then 1 else real_of_int (int n - 1));
          stdDev = sqrt variance;
          margin = (196 / 100) * (stdDev / sqrt (real n))
      in \<lparr>mean = m, lower = m - margin, upper = m + margin\<rparr>)"

text \<open>\<^verbatim>\<open>Math.round\<close> rounds to the nearest integer, a half upwards.\<close>

definition js_round :: "real \<Rightarrow> int" where
  "js_round x = \<lfloor>x + 1 / 2\<rfloor>"

text \<open>\<^verbatim>\<open>Math.max\<close> of the elements of a non-empty list.\<close>

definition max_of :: "real list \<Rightarrow> real" where
  "max_of xs = fold max (tl xs) (hd xs)"

definition avgWaitStat :: "(SimulationStats \<Rightarrow> WaitStats) \<Rightarrow> SimulationStats list \<Rightarrow> WaitStats" where
  "avgWaitStat key runs =
     \<lparr>avg = avg_of (\<lambda>s. avg (key s)) runs,
      p90 = avg_of (\<lambda>s. p90 (key s)) runs,
      wmax = max_of (map (\<lambda>s. wmax (key s)) runs)\<rparr>"

text \<open>
  \<^verbatim>\<open>aggregateResults\<close> is only called with the results of at least one run; the second
  equation is the general case, for two runs or more.
\<close>

fun aggregateResults :: "SimulationStats list \<Rightarrow> SimulationStats" where
  "aggregateResults [r] = r"
| "aggregateResults runs =
     \<lparr>totalJobs = js_round (avg_of (\<lambda>s. real_of_int (totalJobs s)) runs),
      completedJobs = js_round (avg_of (\<lambda>s. real_of_int (completedJobs s)) runs),
      throughput = avg_nan throughput runs,
      avgWip = avg_nan avgWip runs,
      serviceLevel = avg_of serviceLevel runs,
      avgLeadTime = avg_of avgLeadTime runs,
      leadTimeCI = calcCI avgLeadTime runs,
      totalDegradationCost = avg_of totalDegradationCost runs,
      avgDegradationCostPerPart = avg_of avgDegradationCostPerPart runs,
      costCI = calcCI avgDegradationCostPerPart runs,
      waitTimes_moulding = concat (map waitTimes_moulding runs),
      waitTimes_inspection = concat (map waitTimes_inspection runs),
      waitTimes_packaging = concat (map waitTimes_packaging runs),
      waitStats_moulding = avgWaitStat waitStats_moulding runs,
      waitStats_inspection = avgWaitStat waitStats_inspection runs,
      waitStats_packaging = avgWaitStat waitStats_packaging runs,
      machineUtilization_moulding = avg_of machineUtilization_moulding runs,
      machineUtilization_inspection = avg_of machineUtilization_inspection runs,
      machineUtilization_packaging = avg_of machineUtilization_packaging runs\<rparr>"

text \<open>
  The \<^verbatim>\<open>for\<close> loop of \<^verbatim>\<open>run\<close>: replication \<open>i\<close> runs on a copy of the configuration whose
  seed is \<open>seed + i\<close>. A replication that throws or does not return ends the whole call.
\<close>

definition replication :: "SimulationConfig \<Rightarrow> nat \<Rightarrow> (error + SimulationStats) option" where
  "replication c i = runSingleSimulation (c\<lparr>seed := seed c + int i\<rparr>)"

fun collect :: "(error + SimulationStats) option list \<Rightarrow> (error + SimulationStats list) option" where
  "collect [] = Some (Inr [])"
| "collect (None # rs) = None"
| "collect (Some (Inl e) # rs) = Some (Inl e)"
| "collect (Some (Inr r) # rs) =
     (case collect rs of
        None \<Rightarrow> None
      | Some (Inl e) \<Rightarrow> Some (Inl e)
      | Some (Inr xs) \<Rightarrow> Some (Inr (r # xs)))"

definition run :: "SimulationConfig \<Rightarrow> (error + SimulationStats) option" where
  "run c =
     (let runs = max 1 (replications c)
      in case collect (map (replication c) [0..<nat runs]) of
           None \<Rightarrow> None
         | Some (Inl e) \<Rightarrow> Some (Inl e)
         | Some (Inr results) \<Rightarrow> Some (Inr (aggregateResults results)))"


subsection \<open>The engine object\<close>




subsection \<open>The events a run processes\<close>

text \<open>
  \<open>run_steps c s evs s'\<close>: from state \<open>s\<close> the loop passes through its body once for each
  event of \<open>evs\<close>, in this order, without throwing, and is then in state \<open>s'\<close>. The guard
  and the body are those of \<open>loop\<close>.
\<close>

inductive run_steps :: "SimulationConfig \<Rightarrow> SimState \<Rightarrow> SimEvent list \<Rightarrow> SimState \<Rightarrow> bool"
  for c :: SimulationConfig where
  steps_nil: "run_steps c s [] s"
| steps_cons: "queue s = ev # rest \<Longrightarrow> currentTime s < duration c \<Longrightarrow>
     process_event c ev (s\<lparr>queue := rest\<rparr>) = Inr s' \<Longrightarrow> run_steps c s' evs s'' \<Longrightarrow>
     run_steps c s (ev # evs) s''"

subsection \<open>Executions\<close>




subsection \<open>Notions the properties are stated with\<close>

text \<open>
  Instantaneous work in process as a function of the processed events: it changes by \<open>+1\<close>
  at an arrival and by \<open>-1\<close> at a packaging finish. \<open>wip_after w evs\<close> is its value after
  the events \<open>evs\<close>, from the value \<open>w\<close>. \<open>wip_accum w t evs\<close> is the area under it from
  time \<open>t\<close> to the time of the last event of \<open>evs\<close>, every interval between two events
  weighted with the value before the later event. \<open>wip_integral D w t evs\<close> is the area under
  it from \<open>t\<close> to \<open>D\<close>, for event times in non-decreasing order.
\<close>

fun wip_delta :: "EventType \<Rightarrow> int" where
  "wip_delta ARRIVAL = 1"
| "wip_delta PACKAGING_FINISH = - 1"
| "wip_delta MOULDING_FINISH = 0"
| "wip_delta INSPECTION_FINISH = 0"

fun wip_after :: "int \<Rightarrow> SimEvent list \<Rightarrow> int" where
  "wip_after w [] = w"
| "wip_after w (e # es) = wip_after (w + wip_delta (type e)) es"

fun wip_accum :: "int \<Rightarrow> real \<Rightarrow> SimEvent list \<Rightarrow> real" where
  "wip_accum w t [] = 0"
| "wip_accum w t (e # es) =
     real_of_int w * (time e - t) + wip_accum (w + wip_delta (type e)) (time e) es"

fun wip_integral :: "real \<Rightarrow> int \<Rightarrow> real \<Rightarrow> SimEvent list \<Rightarrow> real" where
  "wip_integral D w t [] = real_of_int w * (D - min t D)"
| "wip_integral D w t (e # es) =
     real_of_int w * (min (time e) D - min t D) + wip_integral D (w + wip_delta (type e)) (time e) es"

text \<open>
  The jobs that are in service (they have a pending finish event) or wait at a stage.
\<close>

definition in_system :: "SimState \<Rightarrow> int" where
  "in_system s = int (length (filter (\<lambda>e. type e \<noteq> ARRIVAL) (queue s))
     + length (mouldingQueue s) + length (inspectionQueue s) + length (packagingQueue s))"

text \<open>
  Every finish event carries a job, and every job an event or a wait queue refers to is
  in the job array.
\<close>

definition refs_ok :: "SimState \<Rightarrow> bool" where
  "refs_ok s =
     ((\<forall>e \<in> set (queue s). case job e of None \<Rightarrow> type e = ARRIVAL | Some j \<Rightarrow> j < length (jobs s))
      \<and> (\<forall>n \<in> set (mouldingQueue s). n < length (jobs s))
      \<and> (\<forall>n \<in> set (inspectionQueue s). n < length (jobs s))
      \<and> (\<forall>n \<in> set (packagingQueue s). n < length (jobs s)))"

text \<open>The service time a finish block adds to the busy time of its stage.\<close>

definition service_time :: "real option \<Rightarrow> real \<Rightarrow> real" where
  "service_time start now = (case start of None \<Rightarrow> 0 | Some t0 \<Rightarrow> if t0 \<noteq> 0 then now - t0 else 0)"


text \<open>
  Invariants of a run from a non-negative seed. \<open>clock_ok\<close>: the generator state is not
  negative, the queue is in time order, no pending event lies before the clock, no start
  time of a job lies after the clock, and the busy times are not negative.
\<close>

definition started_by :: "real \<Rightarrow> Job \<Rightarrow> bool" where
  "started_by t b =
     ((case mouldingStartTime b of None \<Rightarrow> True | Some t0 \<Rightarrow> t0 \<le> t)
      \<and> (case inspectionStartTime b of None \<Rightarrow> True | Some t0 \<Rightarrow> t0 \<le> t)
      \<and> (case packagingStartTime b of None \<Rightarrow> True | Some t0 \<Rightarrow> t0 \<le> t))"

definition clock_ok :: "SimState \<Rightarrow> bool" where
  "clock_ok s =
     (0 \<le> rng s
      \<and> sorted (map time (queue s))
      \<and> (\<forall>e \<in> set (queue s). currentTime s \<le> time e)
      \<and> (\<forall>b \<in> set (jobs s). started_by (currentTime s) b)
      \<and> 0 \<le> totalMouldingBusyTime s
      \<and> 0 \<le> totalInspectionBusyTime s
      \<and> 0 \<le> totalPackagingBusyTime s)"

text \<open>
  \<open>pos_ok\<close>: every pending event lies after time 0, the moulding end and the inspection
  start of a job are positive when set, a job with an inspection start has a moulding
  end, and so has every job that waits for inspection.
\<close>

definition moulded :: "Job \<Rightarrow> bool" where
  "moulded b = (mouldingEndTime b \<noteq> None)"

definition stamps_pos :: "Job \<Rightarrow> bool" where
  "stamps_pos b =
     ((case mouldingEndTime b of None \<Rightarrow> True | Some t \<Rightarrow> 0 < t)
      \<and> (case inspectionStartTime b of None \<Rightarrow> True | Some t \<Rightarrow> 0 < t \<and> moulded b))"

definition pos_ok :: "SimState \<Rightarrow> bool" where
  "pos_ok s =
     ((\<forall>e \<in> set (queue s). 0 < time e)
      \<and> (\<forall>b \<in> set (jobs s). stamps_pos b)
      \<and> (\<forall>n \<in> set (inspectionQueue s). moulded (jobs s ! n)))"

text \<open>
  \<open>backlog\<close>: with a mean inter-arrival time of 0 or less the clock never gets beyond 0
  and an arrival at or before 0 is always pending.
\<close>

definition backlog :: "SimState \<Rightarrow> bool" where
  "backlog s =
     (0 \<le> rng s \<and> sorted (map time (queue s)) \<and> currentTime s \<le> 0
      \<and> (\<exists>e \<in> set (queue s). type e = ARRIVAL \<and> time e \<le> 0))"

text \<open>
  A job has reached inspection when its inspection start is set; its inspection wait is
  the time from its moulding end to its inspection start.
\<close>

definition reached_inspection :: "Job \<Rightarrow> bool" where
  "reached_inspection b = (inspectionStartTime b \<noteq> None)"

definition inspection_wait :: "Job \<Rightarrow> real" where
  "inspection_wait b = the (inspectionStartTime b) - the (mouldingEndTime b)"


text \<open>
  Servers in use. A finish event in the event queue stands for a server that is busy with
  the job of the event; \<open>elapsed\<close> is the time this job has been in service. A stage is
  \<open>stage_ok\<close> when the free servers and the finish events of the stage add up to the
  servers of the stage, and the busy time recorded so far plus the time the jobs in service
  have spent there is at most \<open>servers * clock\<close>.
\<close>

definition elapsed :: "real \<Rightarrow> real option \<Rightarrow> real" where
  "elapsed now start = (case start of None \<Rightarrow> 0 | Some t0 \<Rightarrow> now - t0)"

definition job_start :: "(Job \<Rightarrow> real option) \<Rightarrow> Job list \<Rightarrow> SimEvent \<Rightarrow> real option" where
  "job_start start js e = (case job e of None \<Rightarrow> None | Some i \<Rightarrow> start (js ! i))"

definition stage_load :: "EventType \<Rightarrow> (Job \<Rightarrow> real option) \<Rightarrow> SimState \<Rightarrow> real" where
  "stage_load ty start s =
     sum_list (map (\<lambda>e. elapsed (currentTime s) (job_start start (jobs s) e))
                   (filter (\<lambda>e. type e = ty) (queue s)))"

definition stage_ok ::
  "EventType \<Rightarrow> (Job \<Rightarrow> real option) \<Rightarrow> int \<Rightarrow> int \<Rightarrow> real \<Rightarrow> SimState \<Rightarrow> bool" where
  "stage_ok ty start machines free busy s =
     (0 \<le> free
      \<and> int (length (filter (\<lambda>e. type e = ty) (queue s))) + free = machines
      \<and> busy + stage_load ty start s \<le> real_of_int machines * currentTime s)"

definition past_starts :: "(Job \<Rightarrow> real option) \<Rightarrow> SimState \<Rightarrow> bool" where
  "past_starts start s =
     (\<forall>e \<in> set (queue s). 0 \<le> elapsed (currentTime s) (job_start start (jobs s) e))"

definition moulding_ok :: "SimulationConfig \<Rightarrow> SimState \<Rightarrow> bool" where
  "moulding_ok c s = stage_ok MOULDING_FINISH mouldingStartTime (mouldingMachines c)
     (mouldingFree s) (totalMouldingBusyTime s) s"

definition inspection_ok :: "SimulationConfig \<Rightarrow> SimState \<Rightarrow> bool" where
  "inspection_ok c s = stage_ok INSPECTION_FINISH inspectionStartTime (inspectionStations c)
     (inspectionFree s) (totalInspectionBusyTime s) s"

definition packaging_ok :: "SimulationConfig \<Rightarrow> SimState \<Rightarrow> bool" where
  "packaging_ok c s = stage_ok PACKAGING_FINISH packagingStartTime (packagingMachines c)
     (packagingFree s) (totalPackagingBusyTime s) s"

definition stages_ok :: "SimulationConfig \<Rightarrow> SimState \<Rightarrow> bool" where
  "stages_ok c s = (moulding_ok c s \<and> inspection_ok c s \<and> packaging_ok c s)"


subsection \<open>A concrete run\<close>

text \<open>
  Duration half a minute, one server per stage, mean inter-arrival time 1, seed 0. The
  first four exponential draws of this run are named; the run processes two events.
\<close>

definition exA :: SimulationConfig where
  "exA = \<lparr>duration = 1 / 2, mouldingMachines = 1, inspectionStations = 1, packagingMachines = 1,
          arrivalIntervalMean = 1, degradationCostPerMinute = 5 / 2, degradationThreshold = 0,
          replications = 1, seed = 0\<rparr>"

definition exA_t1 :: real where "exA_t1 = fst (exponential 0 1)"
definition exA_x3 :: real where "exA_x3 = fst (exponential 165494 1)"
definition exA_y4 :: real where "exA_y4 = fst (getProcessTime Moulding (Some TypeC) 127551)"
definition exA_y5 :: real where "exA_y5 = fst (getProcessTime Inspection (Some TypeC) 172348)"

definition exA_job0 :: Job where
  "exA_job0 = \<lparr>job_id = 1, productType = Some TypeC, arrivalTime = exA_t1,
      mouldingStartTime = Some exA_t1, mouldingEndTime = None,
      inspectionStartTime = None, inspectionEndTime = None,
      packagingStartTime = None, packagingEndTime = None, finished = False\<rparr>"

definition exA_e1ev :: SimEvent where
  "exA_e1ev = \<lparr>time = exA_t1, type = ARRIVAL, job = None\<rparr>"

definition exA_e2ev :: SimEvent where
  "exA_e2ev = \<lparr>time = exA_t1 + exA_y4, type = MOULDING_FINISH, job = Some 0\<rparr>"

definition exA_s1 :: SimState where
  "exA_s1 = \<lparr>rng = 172348, currentTime = exA_t1, queue = [exA_e2ev], jobs = [exA_job0],
      mouldingFree = 0, inspectionFree = 1, packagingFree = 1,
      mouldingQueue = [], inspectionQueue = [], packagingQueue = [],
      totalMouldingBusyTime = 0, totalInspectionBusyTime = 0, totalPackagingBusyTime = 0,
      lastEventTime = exA_t1, wipArea = 0, currentWip = 1\<rparr>"

definition exA_final :: SimState where
  "exA_final = \<lparr>rng = 191165, currentTime = exA_t1 + exA_y4,
      queue = [\<lparr>time = exA_t1 + exA_y4 + exA_y5, type = INSPECTION_FINISH, job = Some 0\<rparr>],
      jobs = [exA_job0\<lparr>mouldingEndTime := Some (exA_t1 + exA_y4),
                       inspectionStartTime := Some (exA_t1 + exA_y4)\<rparr>],
      mouldingFree = 1, inspectionFree = 0, packagingFree = 1,
      mouldingQueue = [], inspectionQueue = [], packagingQueue = [],
      totalMouldingBusyTime = exA_y4, totalInspectionBusyTime = 0, totalPackagingBusyTime = 0,
      lastEventTime = exA_t1 + exA_y4, wipArea = exA_y4, currentWip = 1\<rparr>"



definition exB_y5 :: real where "exB_y5 = fst (getProcessTime Inspection (Some TypeC) 222509)"







text \<open>
  A run from a negative seed, two moulding machines and one server at the other stages.
  The first draw is negative and so is the time of the first arrival. The mean
  inter-arrival time is chosen so that the first job, which arrives at \<open>exC_t1\<close> and is
  moulded for \<open>exC_y4 = - exC_t1\<close>, finishes moulding at time 0 exactly. The run processes
  five events: two arrivals, the moulding finish of the second job, which goes into
  inspection at once, the moulding finish of the first job at time 0, which waits for
  the inspection station, and the inspection finish of the second job at \<open>exC_t5\<close>, where
  the first job starts inspection.
\<close>

definition exC_mean :: real where
  "exC_mean = 10 * ln (233280 / 109671) / ln (363582 / 233280)"

definition exC :: SimulationConfig where
  "exC = \<lparr>duration = 1 / 2, mouldingMachines = 2, inspectionStations = 1, packagingMachines = 1,
          arrivalIntervalMean = exC_mean, degradationCostPerMinute = 1, degradationThreshold = 0,
          replications = 1, seed = - 149779\<rparr>"

definition exC_t1 :: real where "exC_t1 = fst (exponential (- 149779) exC_mean)"
definition exC_x3 :: real where "exC_x3 = fst (exponential (- 5) exC_mean)"
definition exC_y4 :: real where "exC_y4 = fst (getProcessTime Moulding None 2792)"
definition exC_x6 :: real where "exC_x6 = fst (exponential 132766 exC_mean)"
definition exC_y7 :: real where "exC_y7 = fst (getProcessTime Moulding (Some TypeC) 154823)"
definition exC_y8 :: real where "exC_y8 = fst (getProcessTime Inspection (Some TypeC) 20580)"
definition exC_y9 :: real where "exC_y9 = fst (getProcessTime Inspection None 174277)"
definition exC_y10 :: real where "exC_y10 = fst (getProcessTime Packaging (Some TypeC) 170234)"

definition exC_t2 :: real where "exC_t2 = exC_t1 + exC_x3"
definition exC_t3 :: real where "exC_t3 = exC_t2 + exC_y7"
definition exC_t5 :: real where "exC_t5 = exC_t3 + exC_y8"

definition exC_L1 :: real where "exC_L1 = ln (363582 / 233280)"
definition exC_L3 :: real where "exC_L3 = ln (233280 / 230488)"
definition exC_L6 :: real where "exC_L6 = ln (233280 / 78457)"

definition exC_job0 :: Job where
  "exC_job0 = \<lparr>job_id = 1, productType = None, arrivalTime = exC_t1,
      mouldingStartTime = Some exC_t1, mouldingEndTime = None,
      inspectionStartTime = None, inspectionEndTime = None,
      packagingStartTime = None, packagingEndTime = None, finished = False\<rparr>"

definition exC_job1 :: Job where
  "exC_job1 = \<lparr>job_id = 2, productType = Some TypeC, arrivalTime = exC_t2,
      mouldingStartTime = Some exC_t2, mouldingEndTime = None,
      inspectionStartTime = None, inspectionEndTime = None,
      packagingStartTime = None, packagingEndTime = None, finished = False\<rparr>"

definition exC_ev1 :: SimEvent where "exC_ev1 = \<lparr>time = exC_t1, type = ARRIVAL, job = None\<rparr>"
definition exC_ev2 :: SimEvent where "exC_ev2 = \<lparr>time = exC_t2, type = ARRIVAL, job = None\<rparr>"
definition exC_ev3 :: SimEvent where
  "exC_ev3 = \<lparr>time = exC_t3, type = MOULDING_FINISH, job = Some 1\<rparr>"
definition exC_ev4 :: SimEvent where
  "exC_ev4 = \<lparr>time = 0, type = MOULDING_FINISH, job = Some 0\<rparr>"
definition exC_ev5 :: SimEvent where
  "exC_ev5 = \<lparr>time = exC_t5, type = INSPECTION_FINISH, job = Some 1\<rparr>"

definition exC_s1 :: SimState where
  "exC_s1 = \<lparr>rng = 123609, currentTime = exC_t1, queue = [exC_ev2, exC_ev4], jobs = [exC_job0],
      mouldingFree = 1, inspectionFree = 1, packagingFree = 1,
      mouldingQueue = [], inspectionQueue = [], packagingQueue = [],
      totalMouldingBusyTime = 0, totalInspectionBusyTime = 0, totalPackagingBusyTime = 0,
      lastEventTime = exC_t1, wipArea = 0, currentWip = 1\<rparr>"

definition exC_s2 :: SimState where
  "exC_s2 = \<lparr>rng = 20580, currentTime = exC_t2, queue = [exC_ev3, exC_ev4],
      jobs = [exC_job0, exC_job1],
      mouldingFree = 0, inspectionFree = 1, packagingFree = 1,
      mouldingQueue = [], inspectionQueue = [], packagingQueue = [],
      totalMouldingBusyTime = 0, totalInspectionBusyTime = 0, totalPackagingBusyTime = 0,
      lastEventTime = exC_t2, wipArea = exC_t2 - exC_t1, currentWip = 2\<rparr>"

definition exC_s3 :: SimState where
  "exC_s3 = \<lparr>rng = 174277, currentTime = exC_t3, queue = [exC_ev4, exC_ev5],
      jobs = [exC_job0, exC_job1\<lparr>mouldingEndTime := Some exC_t3,
                                  inspectionStartTime := Some exC_t3\<rparr>],
      mouldingFree = 1, inspectionFree = 0, packagingFree = 1,
      mouldingQueue = [], inspectionQueue = [], packagingQueue = [],
      totalMouldingBusyTime = exC_t3 - exC_t2, totalInspectionBusyTime = 0,
      totalPackagingBusyTime = 0,
      lastEventTime = exC_t3, wipArea = exC_t2 - exC_t1 + 2 * (exC_t3 - exC_t2),
      currentWip = 2\<rparr>"

definition exC_s4 :: SimState where
  "exC_s4 = \<lparr>rng = 174277, currentTime = 0, queue = [exC_ev5],
      jobs = [exC_job0\<lparr>mouldingEndTime := Some 0\<rparr>,
              exC_job1\<lparr>mouldingEndTime := Some exC_t3, inspectionStartTime := Some exC_t3\<rparr>],
      mouldingFree = 2, inspectionFree = 0, packagingFree = 1,
      mouldingQueue = [], inspectionQueue = [0], packagingQueue = [],
      totalMouldingBusyTime = exC_t3 - exC_t2 + (0 - exC_t1), totalInspectionBusyTime = 0,
      totalPackagingBusyTime = 0,
      lastEventTime = 0,
      wipArea = exC_t2 - exC_t1 + 2 * (exC_t3 - exC_t2) + 2 * (0 - exC_t3),
      currentWip = 2\<rparr>"

definition exC_final :: SimState where
  "exC_final = \<lparr>rng = 124371, currentTime = exC_t5,
      queue = schedule PACKAGING_FINISH (exC_t5 + exC_y10) (Some 1)
                (schedule INSPECTION_FINISH (exC_t5 + exC_y9) (Some 0) []),
      jobs = [exC_job0\<lparr>mouldingEndTime := Some 0, inspectionStartTime := Some exC_t5\<rparr>,
              exC_job1\<lparr>mouldingEndTime := Some exC_t3, inspectionStartTime := Some exC_t3,
                        inspectionEndTime := Some exC_t5, packagingStartTime := Some exC_t5\<rparr>],
      mouldingFree = 2, inspectionFree = 0, packagingFree = 0,
      mouldingQueue = [], inspectionQueue = [], packagingQueue = [],
      totalMouldingBusyTime = exC_t3 - exC_t2 + (0 - exC_t1),
      totalInspectionBusyTime = exC_t5 - exC_t3,
      totalPackagingBusyTime = 0,
      lastEventTime = exC_t5,
      wipArea = exC_t2 - exC_t1 + 2 * (exC_t3 - exC_t2) + 2 * (0 - exC_t3) + 2 * (exC_t5 - 0),
      currentWip = 2\<rparr>"

section \<open>The random stream\<close>

subsection \<open>Rounding to doubles\<close>

lemma ulp_small: "n < 2 ^ 53 \<Longrightarrow> ulp n = 1"
  by (subst ulp.simps) simp

lemma ulp_large: "\<not> n < 2 ^ 53 \<Longrightarrow> ulp n = 2 * ulp (n div 2)"
  by (subst ulp.simps) simp

lemma ulp_pos: "0 < ulp n"
  by (induction n rule: ulp.induct) (subst ulp.simps, simp)

lemma round_even_exact: "ulp n dvd n \<Longrightarrow> round_even n = n"
  using ulp_pos [of n] by (auto simp: round_even_def Let_def)

lemma double_of_exact: "ulp (nat \<bar>x\<bar>) dvd nat \<bar>x\<bar> \<Longrightarrow> double_of x = x"
  by (simp add: double_of_def round_even_exact) (simp add: sgn_if)

lemma double_of_small [simp]: "\<bar>x\<bar> < 2 ^ 53 \<Longrightarrow> double_of x = x"
  by (rule double_of_exact) (simp add: ulp_small)

lemma double_of_nonneg: "0 \<le> x \<Longrightarrow> 0 \<le> double_of x"
  by (simp add: double_of_def sgn_if)

lemma double_of_nonpos: "x \<le> 0 \<Longrightarrow> double_of x \<le> 0"
  by (simp add: double_of_def sgn_if)

lemma ulp_pow2: "ulp (2 ^ 53 * 2 ^ k) = 2 * 2 ^ k"
proof (induction k)
  case 0
  have "ulp (2 ^ 53) = 2 * ulp (2 ^ 53 div 2)" by (rule ulp_large) simp
  also have "(2::nat) ^ 53 div 2 = 2 ^ 52" by simp
  also have "ulp (2 ^ 52) = 1" by (rule ulp_small) simp
  finally show ?case by simp
next
  case (Suc k)
  have "(2::nat) ^ 53 * 1 \<le> 2 ^ 53 * 2 ^ Suc k" by (rule mult_le_mono2) simp
  then have "\<not> (2::nat) ^ 53 * 2 ^ Suc k < 2 ^ 53" by simp
  then have "ulp (2 ^ 53 * 2 ^ Suc k) = 2 * ulp (2 ^ 53 * 2 ^ Suc k div 2)" by (rule ulp_large)
  also have "(2::nat) ^ 53 * 2 ^ Suc k div 2 = 2 ^ 53 * 2 ^ k" by simp
  finally show ?case using Suc.IH by simp
qed

lemma double_of_pow2: "double_of (2 ^ 53 * 2 ^ k) = 2 ^ 53 * 2 ^ k"
proof (rule double_of_exact)
  have n: "nat \<bar>(2::int) ^ 53 * 2 ^ k\<bar> = 2 ^ 53 * 2 ^ k"
    by (simp add: nat_mult_distrib nat_power_eq)
  have "(2::nat) * 2 ^ k dvd 2 ^ 53 * 2 ^ k" by (rule mult_dvd_mono) simp_all
  then show "ulp (nat \<bar>(2::int) ^ 53 * 2 ^ k\<bar>) dvd nat \<bar>(2::int) ^ 53 * 2 ^ k\<bar>"
    unfolding n ulp_pow2 .
qed

subsection \<open>The generator on finite states\<close>

lemma js_rem_range:
  assumes "0 \<le> a" and "0 < b"
  shows "0 \<le> js_rem a b \<and> js_rem a b < b"
proof -
  have "js_rem a b = a mod b"
  proof (cases "a = 0")
    case True
    then show ?thesis by (simp add: js_rem_def)
  next
    case False
    with assms have "sgn a = 1" by simp
    with assms show ?thesis by (simp add: js_rem_def)
  qed
  with assms show ?thesis by simp
qed

lemma rnd_next_state:
  assumes "0 \<le> s"
  shows "0 \<le> snd (rnd_next s) \<and> snd (rnd_next s) < 233280"
proof -
  have "0 \<le> double_of (s * 9301)" using assms by (simp add: double_of_nonneg)
  then have "0 \<le> double_of (double_of (s * 9301) + 49297)" by (simp add: double_of_nonneg)
  from js_rem_range [OF this, of 233280] show ?thesis
    by (simp add: rnd_next_def Let_def)
qed

lemma rnd_next_remainder: "\<bar>snd (rnd_next s)\<bar> < 233280"
proof -
  have "\<bar>js_rem a 233280\<bar> < 233280" for a
    by (simp add: js_rem_def abs_mult abs_sgn_eq)
  then show ?thesis by (simp add: rnd_next_def Let_def)
qed

lemma rnd_next_value: "fst (rnd_next s) = real_of_int (snd (rnd_next s)) / 233280"
  by (simp add: rnd_next_def Let_def)

lemma rnd_next_unit:
  assumes "0 \<le> s"
  shows "0 \<le> fst (rnd_next s) \<and> fst (rnd_next s) < 1"
proof -
  from rnd_next_state [OF assms]
  have "0 \<le> real_of_int (snd (rnd_next s))" and "real_of_int (snd (rnd_next s)) < 233280"
    by simp_all
  then show ?thesis by (simp add: rnd_next_value)
qed

lemma draws_state: "0 \<le> s \<Longrightarrow> 0 \<le> draws n s"
proof (induction n arbitrary: s)
  case 0
  then show ?case by simp
next
  case (Suc n)
  from rnd_next_state [OF Suc.prems] have "0 \<le> snd (rnd_next s)" by simp
  then show ?case using Suc.IH by simp
qed

lemma choice_in_range:
  assumes "0 \<le> s" and "items \<noteq> []"
  shows "\<exists>x. fst (choice s items) = Some x \<and> x \<in> set items"
proof -
  obtain u s' where us: "rnd_next s = (u, s')" by (cases "rnd_next s")
  with rnd_next_unit [OF assms(1)] have u: "0 \<le> u" "u < 1" by simp_all
  let ?n = "length items"
  let ?idx = "\<lfloor>u * real ?n\<rfloor>"
  have n: "0 < real ?n" using assms(2) by simp
  have lo: "0 \<le> ?idx" using u(1) by simp
  have "u * real ?n < real ?n" using u(2) n by simp
  then have hi: "?idx < int ?n" by (simp add: floor_less_iff)
  from lo hi have "nat ?idx < ?n" by linarith
  then have "items ! nat ?idx \<in> set items" by simp
  with lo hi us show ?thesis by (simp add: choice_def Let_def)
qed

subsection \<open>The generator in general\<close>

lemma finite_double_small: "\<bar>x\<bar> < 2 ^ 53 \<Longrightarrow> finite_double x"
proof -
  have "(2::int) ^ 970 \<le> 2 ^ 1023" by (rule power_increasing) simp_all
  moreover have "(2::int) ^ 53 \<le> 2 ^ 1023" by (rule power_increasing) simp_all
  moreover have "(2::int) ^ 1024 = 2 * 2 ^ 1023" by (simp only: power_Suc [symmetric]) simp
  ultimately have "(2::int) ^ 53 \<le> 2 ^ 1024 - 2 ^ 970" by linarith
  then show "\<bar>x\<bar> < 2 ^ 53 \<Longrightarrow> finite_double x" by (simp add: finite_double_def)
qed

lemma Random_next_finite:
  assumes "finite_double (s * 9301)" and "finite_double (double_of (s * 9301) + 49297)"
  shows "Random_next (Some s) = (Some (fst (rnd_next s)), Some (snd (rnd_next s)))"
  using assms by (simp add: Random_next_def split_beta)

text \<open>On a state that is a remainder the arithmetic is exact and stays finite.\<close>

lemma Random_next_remainder:
  assumes "\<bar>s\<bar> < 233280"
  shows "Random_next (Some s) = (Some (fst (rnd_next s)), Some (snd (rnd_next s)))"
    and "snd (rnd_next s) = js_rem (s * 9301 + 49297) 233280"
proof -
  from assms have "\<bar>s\<bar> * 9301 < 233280 * 9301" by simp
  then have a: "\<bar>s * 9301\<bar> < 2 ^ 53" by (simp add: abs_mult)
  then have "\<bar>s * 9301 + 49297\<bar> < 2 ^ 53" using assms by (simp add: abs_mult)
  with a show "Random_next (Some s) = (Some (fst (rnd_next s)), Some (snd (rnd_next s)))"
    by (intro Random_next_finite finite_double_small) simp_all
  from a \<open>\<bar>s * 9301 + 49297\<bar> < 2 ^ 53\<close>
  show "snd (rnd_next s) = js_rem (s * 9301 + 49297) 233280"
    by (simp add: rnd_next_def Let_def)
qed

lemma Random_draws_remainder:
  assumes "0 \<le> s" and "s < 233280"
  shows "Random_draws n (Some s) = Some (draws n s) \<and> 0 \<le> draws n s \<and> draws n s < 233280"
  using assms
proof (induction n arbitrary: s)
  case 0
  then show ?case by simp
next
  case (Suc n)
  from Suc.prems have "\<bar>s\<bar> < 233280" by simp
  from Random_next_remainder(1) [OF this] rnd_next_state [OF Suc.prems(1)] Suc.IH
  show ?case by simp
qed

lemma first_draw:
  assumes "fst (Random_next (new_Random sd)) \<noteq> None"
  shows "new_Random sd = Some (double_of sd)"
    and "Random_next (new_Random sd)
          = (Some (fst (rnd_next (double_of sd))), Some (snd (rnd_next (double_of sd))))"
proof -
  from assms show n: "new_Random sd = Some (double_of sd)"
    by (auto simp: new_Random_def Random_next_def split: if_splits)
  from assms show "Random_next (new_Random sd)
          = (Some (fst (rnd_next (double_of sd))), Some (snd (rnd_next (double_of sd))))"
    unfolding n by (auto simp: Random_next_def split_beta split: if_splits)
qed

lemma Random_choice_finite:
  assumes "Random_next st = (Some (fst (rnd_next s)), Some (snd (rnd_next s)))"
  shows "Random_choice st items = (fst (choice s items), Some (snd (choice s items)))"
  using assms by (simp add: Random_choice_def choice_def split_beta Let_def)

lemma Random_exponential_finite:
  assumes "Random_next st = (Some (fst (rnd_next s)), Some (snd (rnd_next s)))"
  shows "Random_exponential st m = (Some (fst (exponential s m)), Some (snd (exponential s m)))"
  using assms by (simp add: Random_exponential_def exponential_def split_beta)

lemma first_draw_small:
  assumes "\<bar>sd\<bar> < 2 ^ 32"
  shows "fst (Random_exponential (new_Random sd) m) = Some (fst (exponential sd m))"
proof -
  from assms have "\<bar>sd\<bar> * 9301 < 2 ^ 32 * 9301" by simp
  then have a: "\<bar>sd * 9301\<bar> < 2 ^ 52" by (simp add: abs_mult)
  then have b: "\<bar>sd * 9301 + 49297\<bar> < 2 ^ 53" by simp
  from assms have c: "\<bar>sd\<bar> < 2 ^ 53" by simp
  from a have a': "\<bar>sd * 9301\<bar> < 2 ^ 53" by simp
  have n: "new_Random sd = Some sd"
    using finite_double_small [OF c] c by (simp add: new_Random_def)
  have "Random_next (Some sd) = (Some (fst (rnd_next sd)), Some (snd (rnd_next sd)))"
    using a' b by (intro Random_next_finite finite_double_small) simp_all
  from Random_exponential_finite [OF this] show ?thesis by (simp add: n)
qed

text \<open>
  C9 (as amended). From a non-negative integer seed whose first draw is a number (the
  product of the seed with 9301 is a finite double), every state after a draw is a
  non-negative integer below the modulus 233280, every uniform draw lies in [0, 1), and
  \<^verbatim>\<open>choice\<close> on a non-empty list (in particular on the four product types) returns an
  element of that list, after any number of draws.
\<close>

theorem random_stream_in_range:
  assumes "0 \<le> sd" and "fst (Random_next (new_Random sd)) \<noteq> None"
  shows "(\<exists>s. Random_draws (Suc n) (new_Random sd) = Some s \<and> 0 \<le> s \<and> s < 233280)
       \<and> (\<exists>u. fst (Random_next (Random_draws n (new_Random sd))) = Some u \<and> 0 \<le> u \<and> u < 1)
       \<and> (items \<noteq> [] \<longrightarrow>
            (\<exists>x. fst (Random_choice (Random_draws n (new_Random sd)) items) = Some x
                 \<and> x \<in> set items))
       \<and> (\<exists>p. fst (Random_choice (Random_draws n (new_Random sd)) [TypeA, TypeB, TypeC, TypeD])
                 = Some p)"
proof -
  let ?d = "double_of sd"
  note f = first_draw [OF assms(2)]
  have d0: "0 \<le> ?d" by (rule double_of_nonneg [OF assms(1)])
  have "\<exists>s. 0 \<le> s \<and> Random_draws n (new_Random sd) = Some s
      \<and> Random_next (Some s) = (Some (fst (rnd_next s)), Some (snd (rnd_next s)))"
  proof (cases n)
    case 0
    with f d0 show ?thesis by auto
  next
    case (Suc k)
    let ?s1 = "snd (rnd_next ?d)"
    from rnd_next_state [OF d0] have r: "0 \<le> ?s1" "?s1 < 233280" by simp_all
    from Random_draws_remainder [OF r, of k] Suc f
    have e: "Random_draws n (new_Random sd) = Some (draws k ?s1)"
      and b: "0 \<le> draws k ?s1" "draws k ?s1 < 233280" by simp_all
    from b have "\<bar>draws k ?s1\<bar> < 233280" by simp
    from Random_next_remainder(1) [OF this] e b(1) show ?thesis by blast
  qed
  then obtain s where s0: "0 \<le> s" and e: "Random_draws n (new_Random sd) = Some s"
    and nx: "Random_next (Some s) = (Some (fst (rnd_next s)), Some (snd (rnd_next s)))"
    by blast
  from rnd_next_state [OF s0] nx e
  have a: "\<exists>s'. Random_draws (Suc n) (new_Random sd) = Some s' \<and> 0 \<le> s' \<and> s' < 233280"
  proof -
    have "Random_draws (Suc n) st = snd (Random_next (Random_draws n st))" for st
      by (induction n arbitrary: st) simp_all
    with rnd_next_state [OF s0] nx e show ?thesis by simp
  qed
  from rnd_next_unit [OF s0] nx e
  have b: "\<exists>u. fst (Random_next (Random_draws n (new_Random sd))) = Some u \<and> 0 \<le> u \<and> u < 1"
    by simp
  have c: "\<exists>x. fst (Random_choice (Random_draws n (new_Random sd)) xs) = Some x \<and> x \<in> set xs"
    if "xs \<noteq> []" for xs :: "'b list"
    using choice_in_range [OF s0 that] Random_choice_finite [OF nx, of xs] e by simp
  from c [of "[TypeA, TypeB, TypeC, TypeD]"]
  have d: "\<exists>p. fst (Random_choice (Random_draws n (new_Random sd)) [TypeA, TypeB, TypeC, TypeD])
      = Some p" by auto
  from a b c [of items] d show ?thesis by blast
qed

theorem random_stream_in_range_witness:
  "(0::int) \<le> 0
   \<and> fst (Random_next (new_Random 0)) = Some (49297 / 233280)
   \<and> Random_draws 2 (new_Random 0) = Some 165494
   \<and> Random_draws (Suc 2) (new_Random 0) = Some 127551
   \<and> fst (Random_next (Random_draws 2 (new_Random 0))) = Some (127551 / 233280)
   \<and> fst (Random_choice (Random_draws 2 (new_Random 0)) [TypeA, TypeB, TypeC, TypeD])
       = Some TypeC"
proof -
  have n0: "new_Random 0 = Some 0" by (simp add: new_Random_def finite_double_small)
  have r0: "rnd_next 0 = (49297 / 233280, 49297)"
    by (simp add: rnd_next_def js_rem_def Let_def)
  have r1: "rnd_next 49297 = (165494 / 233280, 165494)"
    by (simp add: rnd_next_def js_rem_def Let_def)
  have r2: "rnd_next 165494 = (127551 / 233280, 127551)"
    by (simp add: rnd_next_def js_rem_def Let_def)
  have x0: "Random_next (Some 0) = (Some (49297 / 233280), Some 49297)"
    using Random_next_remainder(1) [of 0] by (simp add: r0)
  have x1: "Random_next (Some 49297) = (Some (165494 / 233280), Some 165494)"
    using Random_next_remainder(1) [of 49297] by (simp add: r1)
  have x2: "Random_next (Some 165494) = (Some (127551 / 233280), Some 127551)"
    using Random_next_remainder(1) [of 165494] by (simp add: r2)
  have f: "fst (Random_next (new_Random 0)) = Some (49297 / 233280)" by (simp add: n0 x0)
  have d: "Random_draws 2 (new_Random 0) = Some 165494"
    by (simp add: numeral_2_eq_2 n0 x0 x1)
  have d3: "Random_draws (Suc 2) (new_Random 0) = Some 127551"
    by (simp add: numeral_2_eq_2 n0 x0 x1 x2)
  have y: "fst (Random_next (Random_draws 2 (new_Random 0))) = Some (127551 / 233280)"
    by (simp add: d x2)
  have fl: "\<lfloor>(127551 / 233280 :: real) * 4\<rfloor> = 2" by (simp add: floor_eq_iff)
  have "fst (Random_choice (Some 165494) [TypeA, TypeB, TypeC, TypeD]) = Some TypeC"
    by (simp add: Random_choice_def x2 fl)
  then have c: "fst (Random_choice (Random_draws 2 (new_Random 0)) [TypeA, TypeB, TypeC, TypeD])
      = Some TypeC" by (simp only: d)
  have h: "fst (Random_next (new_Random 0)) \<noteq> None" by (simp add: f)
  from random_stream_in_range [of 0 2 "[TypeA, TypeB, TypeC, TypeD]", OF _ h] f d d3 y c
  show ?thesis by blast
qed

text \<open>
  The claim as stated fails for the non-negative integer seed \<open>2^1020\<close>, which is a
  double: its product with 9301 is beyond the doubles, the state becomes NaN with the
  first draw, every draw is NaN, and \<^verbatim>\<open>choice\<close> returns \<^verbatim>\<open>undefined\<close>.
\<close>

theorem random_stream_counterexample:
  "(0::int) \<le> 2 ^ 1020
   \<and> new_Random (2 ^ 1020) = Some (2 ^ 1020)
   \<and> Random_next (new_Random (2 ^ 1020)) = (None, None)
   \<and> Random_next (Random_draws 3 (new_Random (2 ^ 1020))) = (None, None)
   \<and> fst (Random_choice (new_Random (2 ^ 1020)) [TypeA, TypeB, TypeC, TypeD]) = None"
proof -
  have e: "(2::int) ^ 1020 = 2 ^ 53 * 2 ^ 967" by (simp only: power_add [symmetric]) simp
  have d: "double_of (2 ^ 1020) = 2 ^ 1020" unfolding e by (rule double_of_pow2)
  have "(2::int) ^ 1024 = 2 ^ 1020 * 2 ^ 4" by (simp only: power_add [symmetric]) simp
  also have "\<dots> \<le> 2 ^ 1020 * 9301" by (rule mult_left_mono) simp_all
  finally have big: "(2::int) ^ 1024 \<le> 2 ^ 1020 * 9301" .
  have p: "(0::int) < 2 ^ 970" by simp
  from big p have "\<not> \<bar>(2::int) ^ 1020 * 9301\<bar> < 2 ^ 1024 - 2 ^ 970" by linarith
  then have o: "\<not> finite_double (2 ^ 1020 * 9301)" unfolding finite_double_def .
  have "(2::int) ^ 970 \<le> 2 ^ 1020" by (rule power_increasing) simp_all
  moreover have "(2::int) ^ 1024 = 2 ^ 1020 + 15 * 2 ^ 1020"
    by (simp only: \<open>(2::int) ^ 1024 = 2 ^ 1020 * 2 ^ 4\<close>) simp
  moreover have "(0::int) < 2 ^ 1020" by simp
  ultimately have "\<bar>(2::int) ^ 1020\<bar> < 2 ^ 1024 - 2 ^ 970" by linarith
  then have f: "finite_double (2 ^ 1020)" unfolding finite_double_def .
  have n: "new_Random (2 ^ 1020) = Some (2 ^ 1020)"
    unfolding new_Random_def using f d by simp
  have x: "Random_next (Some (2 ^ 1020)) = (None, None)"
    unfolding Random_next_def using o by simp
  have y: "Random_next None = (None, None)" by (simp add: Random_next_def)
  have z: "Random_draws 3 (Some (2 ^ 1020)) = None"
    by (simp only: numeral_3_eq_3 Random_draws.simps x y snd_conv)
  have c: "fst (Random_choice (Some (2 ^ 1020)) [TypeA, TypeB, TypeC, TypeD]) = None"
    unfolding Random_choice_def x by simp
  have p0: "(0::int) \<le> 2 ^ 1020" by simp
  from p0 n x y z c show ?thesis by (simp only: simp_thms)
qed

text \<open>
  A seed above \<open>2^53 / 9301\<close>: the sum \<open>9007199254743275\<close> is not a double, it lies
  half-way between two of them and is rounded to the even one.
\<close>

lemma rounded_draw:
  "Random_next (new_Random 968411918578) = (Some (98796 / 233280), Some 98796)"
proof -
  have u1: "ulp 9007199254743275 = 2 * ulp 4503599627371637" by (subst ulp.simps) simp
  have u2: "ulp 4503599627371637 = 1" by (rule ulp_small) simp
  have r: "round_even 9007199254743275 = 9007199254743276"
    by (simp add: round_even_def u1 u2 Let_def)
  have d: "double_of 9007199254743275 = 9007199254743276" by (simp add: double_of_def r)
  have s: "rnd_next 968411918578 = (98796 / 233280, 98796)"
    by (simp add: rnd_next_def d js_rem_def)
  have n: "new_Random 968411918578 = Some 968411918578"
    by (simp add: new_Random_def finite_double_small)
  have f1: "finite_double (968411918578 * 9301)" by (rule finite_double_small) simp
  have "\<bar>double_of (968411918578 * 9301) + 49297\<bar> < 2 ^ 54" by simp
  moreover have "(2::int) ^ 54 \<le> 2 ^ 1024 - 2 ^ 970"
  proof -
    have "(2::int) ^ 970 \<le> 2 ^ 1023" by (rule power_increasing) simp_all
    moreover have "(2::int) ^ 54 \<le> 2 ^ 1023" by (rule power_increasing) simp_all
    moreover have "(2::int) ^ 1024 = 2 * 2 ^ 1023" by (simp only: power_Suc [symmetric]) simp
    ultimately show ?thesis by linarith
  qed
  ultimately have f2: "finite_double (double_of (968411918578 * 9301) + 49297)"
    unfolding finite_double_def by linarith
  from Random_next_finite [OF f1 f2] show ?thesis unfolding n by (simp add: s)
qed

section \<open>The concrete run, evaluated\<close>

lemma neg_ln_lower: fixes u :: real assumes "0 \<le> u" "u < 1" shows "u \<le> - ln (1 - u)"
  using ln_le_minus_one [of "1 - u"] assms by simp

lemma neg_ln_upper: fixes u :: real assumes "0 \<le> u" "u < 1" shows "- ln (1 - u) \<le> u / (1 - u)"
proof -
  have "ln (1 / (1 - u)) \<le> 1 / (1 - u) - 1"
    using ln_le_minus_one [of "1 / (1 - u)"] assms by simp
  moreover have "ln (1 / (1 - u)) = - ln (1 - u)"
    using assms by (simp add: ln_div)
  moreover have "1 / (1 - u) - 1 = u / (1 - u)"
    using assms by (simp add: field_simps)
  ultimately show ?thesis by simp
qed

lemma rn0: "rnd_next 0 = (49297 / 233280, 49297)"
  by (simp add: rnd_next_def js_rem_def Let_def)
lemma rn1: "rnd_next 49297 = (165494 / 233280, 165494)"
  by (simp add: rnd_next_def js_rem_def Let_def)
lemma rn2: "rnd_next 165494 = (127551 / 233280, 127551)"
  by (simp add: rnd_next_def js_rem_def Let_def)
lemma rn3: "rnd_next 127551 = (172348 / 233280, 172348)"
  by (simp add: rnd_next_def js_rem_def Let_def)
lemma rn4: "rnd_next 172348 = (191165 / 233280, 191165)"
  by (simp add: rnd_next_def js_rem_def Let_def)

lemma exA_e1: "exponential 0 1 = (exA_t1, 49297)"
  by (simp add: exA_t1_def exponential_def rn0)
lemma exA_c2: "choice 49297 [TypeA, TypeB, TypeC, TypeD] = (Some TypeC, 165494)"
proof -
  have "\<lfloor>(165494 / 233280 :: real) * 4\<rfloor> = 2" by (simp add: floor_eq_iff)
  then show ?thesis by (simp add: choice_def rn1)
qed
lemma exA_e3: "exponential 165494 1 = (exA_x3, 127551)"
  by (simp add: exA_x3_def exponential_def rn2)
lemma exA_e4: "getProcessTime Moulding (Some TypeC) 127551 = (exA_y4, 172348)"
  by (simp add: exA_y4_def getProcessTime_def exponential_def rn3)
lemma exA_e5: "getProcessTime Inspection (Some TypeC) 172348 = (exA_y5, 191165)"
  by (simp add: exA_y5_def getProcessTime_def exponential_def rn4)

lemma exA_t1_bounds: "49297 / 233280 \<le> exA_t1 \<and> exA_t1 \<le> 49297 / 183983"
  using neg_ln_lower [of "49297 / 233280"] neg_ln_upper [of "49297 / 233280"]
  by (simp add: exA_t1_def exponential_def rn0)

lemma exA_x3_bounds: "127551 / 233280 \<le> exA_x3"
  using neg_ln_lower [of "127551 / 233280"]
  by (simp add: exA_x3_def exponential_def rn2)

lemma exA_y4_bounds: "14 \<le> exA_y4"
  using neg_ln_lower [of "172348 / 233280"]
  by (simp add: exA_y4_def getProcessTime_def baseMean_def exponential_def rn3)

lemma exA_y5_bounds: "0 \<le> exA_y5"
  using neg_ln_lower [of "191165 / 233280"]
  by (simp add: exA_y5_def getProcessTime_def baseMean_def exponential_def rn4)

lemma exA_fields:
  "duration exA = 1 / 2" "mouldingMachines exA = 1" "inspectionStations exA = 1"
  "packagingMachines exA = 1" "arrivalIntervalMean exA = 1"
  "degradationCostPerMinute exA = 5 / 2" "degradationThreshold exA = 0"
  "replications exA = 1" "seed exA = 0"
  by (simp_all add: exA_def)

lemma exA_init: "init_state exA = \<lparr>rng = 49297, currentTime = 0, queue = [exA_e1ev], jobs = [],
      mouldingFree = 1, inspectionFree = 1, packagingFree = 1,
      mouldingQueue = [], inspectionQueue = [], packagingQueue = [],
      totalMouldingBusyTime = 0, totalInspectionBusyTime = 0, totalPackagingBusyTime = 0,
      lastEventTime = 0, wipArea = 0, currentWip = 0\<rparr>"
  by (simp add: init_state_def exA_fields exA_e1 schedule_def exA_e1ev_def)

lemma exA_step1: "process_event exA exA_e1ev (init_state exA\<lparr>queue := []\<rparr>) = Inr exA_s1"
proof -
  have "\<not> exA_t1 + exA_x3 < 1 / 2" using exA_t1_bounds exA_x3_bounds by simp
  then show ?thesis
    by (simp add: exA_init process_event_def advance_clock_def exA_e1ev_def on_arrival_def
        create_job_def schedule_next_arrival_def dispatch_moulding_def exA_c2 exA_e3
        start_moulding_def upd_job_def exA_e4 schedule_def exA_s1_def exA_job0_def
        exA_e2ev_def exA_fields Let_def)
qed

lemma exA_step2: "process_event exA exA_e2ev (exA_s1\<lparr>queue := []\<rparr>) = Inr exA_final"
proof -
  have "exA_t1 \<noteq> 0" using exA_t1_bounds by simp
  then show ?thesis
    by (simp add: process_event_def advance_clock_def exA_e2ev_def exA_s1_def
        on_moulding_finish_def release_moulding_def pull_moulding_def dispatch_inspection_def
        start_inspection_def upd_job_def exA_e5 schedule_def exA_final_def exA_job0_def Let_def)
qed

lemma exA_loop: "loop exA (init_state exA) = Some (Inr exA_final)"
proof -
  have g0: "currentTime (init_state exA) < duration exA" by (simp add: exA_init exA_fields)
  have q0: "queue (init_state exA) = [exA_e1ev]" by (simp add: exA_init)
  have g1: "currentTime exA_s1 < duration exA"
    using exA_t1_bounds by (simp add: exA_s1_def exA_fields)
  have q1: "queue exA_s1 = [exA_e2ev]" by (simp add: exA_s1_def)
  have g2: "\<not> currentTime exA_final < duration exA"
    using exA_t1_bounds exA_y4_bounds by (simp add: exA_final_def exA_fields)
  have l2: "loop exA exA_final = Some (Inr exA_final)"
    using g2 by (subst loop.simps) (simp split: list.split)
  have l1: "loop exA exA_s1 = Some (Inr exA_final)"
    using g1 q1 exA_step2 l2 by (subst loop.simps) simp
  show ?thesis
    using g0 q0 exA_step1 l1 by (subst loop.simps) simp
qed


lemma exA_run_steps: "run_steps exA (init_state exA) [exA_e1ev, exA_e2ev] exA_final"
proof -
  have g0: "currentTime (init_state exA) < duration exA" by (simp add: exA_init exA_fields)
  have q0: "queue (init_state exA) = [exA_e1ev]" by (simp add: exA_init)
  have g1: "currentTime exA_s1 < duration exA"
    using exA_t1_bounds by (simp add: exA_s1_def exA_fields)
  have q1: "queue exA_s1 = [exA_e2ev]" by (simp add: exA_s1_def)
  have "run_steps exA exA_s1 [exA_e2ev] exA_final"
    by (rule steps_cons [OF q1 g1 exA_step2 steps_nil])
  then show ?thesis by (rule steps_cons [OF q0 g0 exA_step1])
qed

lemma exA_single: "runSingleSimulation exA = Some (Inr (run_stats exA exA_final))"
  by (simp add: runSingleSimulation_def exA_loop first_draw_small exA_fields)

subsection \<open>The run with seed 1\<close>

lemma rm4: "rnd_next 222509 = (178626 / 233280, 178626)"
  by (simp add: rnd_next_def js_rem_def Let_def)





lemma exB_y5_bounds: "0 \<le> exB_y5"
  using neg_ln_lower [of "178626 / 233280"]
  by (simp add: exB_y5_def getProcessTime_def baseMean_def exponential_def rm4)









subsection \<open>The run with seed -149779\<close>

lemma rc1: "rnd_next (- 149779) = (- 130302 / 233280, - 130302)"
  by (simp add: rnd_next_def js_rem_def Let_def)
lemma rc2: "rnd_next (- 130302) = (- 5 / 233280, - 5)"
  by (simp add: rnd_next_def js_rem_def Let_def)
lemma rc3: "rnd_next (- 5) = (2792 / 233280, 2792)"
  by (simp add: rnd_next_def js_rem_def Let_def)
lemma rc4: "rnd_next 2792 = (123609 / 233280, 123609)"
  by (simp add: rnd_next_def js_rem_def Let_def)
lemma rc5: "rnd_next 123609 = (132766 / 233280, 132766)"
  by (simp add: rnd_next_def js_rem_def Let_def)
lemma rc6: "rnd_next 132766 = (154823 / 233280, 154823)"
  by (simp add: rnd_next_def js_rem_def Let_def)
lemma rc7: "rnd_next 154823 = (20580 / 233280, 20580)"
  by (simp add: rnd_next_def js_rem_def Let_def)
lemma rc8: "rnd_next 20580 = (174277 / 233280, 174277)"
  by (simp add: rnd_next_def js_rem_def Let_def)
lemma rc9: "rnd_next 174277 = (170234 / 233280, 170234)"
  by (simp add: rnd_next_def js_rem_def Let_def)
lemma rc10: "rnd_next 170234 = (124371 / 233280, 124371)"
  by (simp add: rnd_next_def js_rem_def Let_def)

lemma exC_e1: "exponential (- 149779) exC_mean = (exC_t1, - 130302)"
  by (simp add: exC_t1_def exponential_def rc1)
lemma exC_c2: "choice (- 130302) [TypeA, TypeB, TypeC, TypeD] = (None, - 5)"
proof -
  have "\<lfloor>(- 5 / 233280 :: real) * 4\<rfloor> = - 1" by (simp add: floor_eq_iff)
  then show ?thesis by (simp add: choice_def rc2)
qed
lemma exC_e3: "exponential (- 5) exC_mean = (exC_x3, 2792)"
  by (simp add: exC_x3_def exponential_def rc3)
lemma exC_e4: "getProcessTime Moulding None 2792 = (exC_y4, 123609)"
  by (simp add: exC_y4_def getProcessTime_def exponential_def rc4)
lemma exC_c5: "choice 123609 [TypeA, TypeB, TypeC, TypeD] = (Some TypeC, 132766)"
proof -
  have "\<lfloor>(132766 / 233280 :: real) * 4\<rfloor> = 2" by (simp add: floor_eq_iff)
  then show ?thesis by (simp add: choice_def rc5)
qed
lemma exC_e6: "exponential 132766 exC_mean = (exC_x6, 154823)"
  by (simp add: exC_x6_def exponential_def rc6)
lemma exC_e7: "getProcessTime Moulding (Some TypeC) 154823 = (exC_y7, 20580)"
  by (simp add: exC_y7_def getProcessTime_def exponential_def rc7)
lemma exC_e8: "getProcessTime Inspection (Some TypeC) 20580 = (exC_y8, 174277)"
  by (simp add: exC_y8_def getProcessTime_def exponential_def rc8)
lemma exC_e9: "getProcessTime Inspection None 174277 = (exC_y9, 170234)"
  by (simp add: exC_y9_def getProcessTime_def exponential_def rc9)
lemma exC_e10: "getProcessTime Packaging (Some TypeC) 170234 = (exC_y10, 124371)"
  by (simp add: exC_y10_def getProcessTime_def exponential_def rc10)

text \<open>Bounds of the logarithm on both sides of 1.\<close>

lemma ln_lower: fixes x :: real assumes "0 < x" shows "1 - 1 / x \<le> ln x"
proof -
  have "ln (1 / x) \<le> 1 / x - 1" using ln_le_minus_one [of "1 / x"] assms by simp
  moreover have "ln (1 / x) = - ln x" using assms by (simp add: ln_div)
  ultimately show ?thesis by simp
qed

lemma ln_upper: fixes x :: real assumes "0 < x" shows "ln x \<le> x - 1"
  using ln_le_minus_one [OF assms] .

lemma exC_L1_bounds: "130302 / 363582 \<le> exC_L1 \<and> exC_L1 \<le> 130302 / 233280"
  using ln_lower [of "363582 / 233280"] ln_upper [of "363582 / 233280"]
  by (simp add: exC_L1_def)

lemma exC_L3_bounds: "2792 / 233280 \<le> exC_L3 \<and> exC_L3 \<le> 2792 / 230488"
  using ln_lower [of "233280 / 230488"] ln_upper [of "233280 / 230488"]
  by (simp add: exC_L3_def)

lemma exC_L6_bounds: "154823 / 233280 \<le> exC_L6"
  using ln_lower [of "233280 / 78457"] by (simp add: exC_L6_def)

lemma exC_y4_eq: "exC_y4 = 10 * ln (233280 / 109671)"
  by (simp add: exC_y4_def getProcessTime_def exponential_def rc4 baseMean_def ln_div)

lemma exC_y4_bounds: "529 / 100 \<le> exC_y4 \<and> exC_y4 \<le> 1128 / 100"
  using ln_lower [of "233280 / 109671"] ln_upper [of "233280 / 109671"]
  by (simp add: exC_y4_eq)

lemma exC_mean_eq: "exC_mean = exC_y4 / exC_L1"
  by (simp add: exC_mean_def exC_y4_eq exC_L1_def)

lemma exC_t1_eq: "exC_t1 = - exC_L1 * exC_mean"
  by (simp add: exC_t1_def exponential_def rc1 exC_L1_def)

lemma exC_zero: "exC_t1 + exC_y4 = 0"
proof -
  from exC_L1_bounds have "exC_L1 \<noteq> 0" by simp
  then show ?thesis by (simp add: exC_t1_eq exC_mean_eq)
qed

lemma exC_x3_eq: "exC_x3 = exC_L3 * exC_mean"
  by (simp add: exC_x3_def exponential_def rc3 exC_L3_def ln_div algebra_simps)

lemma exC_x6_eq: "exC_x6 = exC_L6 * exC_mean"
  by (simp add: exC_x6_def exponential_def rc6 exC_L6_def ln_div algebra_simps)

lemma exC_mean_bounds: "94 / 10 \<le> exC_mean \<and> exC_mean \<le> 32"
proof -
  from exC_L1_bounds have p: "0 < exC_L1" by simp
  from exC_y4_bounds exC_L1_bounds have "94 / 10 * exC_L1 \<le> exC_y4" by simp
  with p have lo: "94 / 10 \<le> exC_y4 / exC_L1" by (simp add: pos_le_divide_eq)
  from exC_y4_bounds exC_L1_bounds have "exC_y4 \<le> 32 * exC_L1" by simp
  with p have hi: "exC_y4 / exC_L1 \<le> 32" by (simp add: pos_divide_le_eq)
  from lo hi show ?thesis by (simp add: exC_mean_eq)
qed

text \<open>The times of the run.\<close>

lemma exC_t1_bounds: "- (1128 / 100) \<le> exC_t1 \<and> exC_t1 \<le> - (529 / 100)"
  using exC_zero exC_y4_bounds by simp

lemma exC_x3_bounds: "0 \<le> exC_x3 \<and> exC_x3 \<le> 4 / 10"
proof -
  from exC_L3_bounds exC_mean_bounds have "0 \<le> exC_L3 * exC_mean" by simp
  moreover have "exC_L3 * exC_mean \<le> (2792 / 230488) * 32"
    using exC_L3_bounds exC_mean_bounds by (intro mult_mono) simp_all
  ultimately show ?thesis by (simp add: exC_x3_eq)
qed

lemma exC_t2_bounds: "- (1128 / 100) \<le> exC_t2 \<and> exC_t2 \<le> - (489 / 100)"
  using exC_t1_bounds exC_x3_bounds by (simp add: exC_t2_def)

lemma exC_next_arrival_late: "\<not> exC_t2 + exC_x6 < 1 / 2"
proof -
  have e: "exC_t2 + exC_x6 = (exC_L6 + exC_L3 - exC_L1) * exC_mean"
    by (simp add: exC_t2_def exC_t1_eq exC_x3_eq exC_x6_eq algebra_simps)
  from exC_L1_bounds exC_L3_bounds exC_L6_bounds
  have d: "117 / 1000 \<le> exC_L6 + exC_L3 - exC_L1" by simp
  have "(117 / 1000) * (94 / 10) \<le> (exC_L6 + exC_L3 - exC_L1) * exC_mean"
    using d exC_mean_bounds by (intro mult_mono) simp_all
  with e show ?thesis by simp
qed

lemma exC_y7_bounds: "0 \<le> exC_y7 \<and> exC_y7 \<le> 2"
  using neg_ln_lower [of "20580 / 233280"] neg_ln_upper [of "20580 / 233280"]
  by (simp add: exC_y7_def getProcessTime_def baseMean_def exponential_def rc7)

lemma exC_t3_bounds: "- (1128 / 100) \<le> exC_t3 \<and> exC_t3 \<le> - (289 / 100)"
  using exC_t2_bounds exC_y7_bounds by (simp add: exC_t3_def)

lemma exC_y8_bounds: "1195 / 100 \<le> exC_y8"
  using neg_ln_lower [of "174277 / 233280"]
  by (simp add: exC_y8_def getProcessTime_def baseMean_def exponential_def rc8)

lemma exC_t5_bounds: "67 / 100 \<le> exC_t5"
  using exC_t3_bounds exC_y8_bounds by (simp add: exC_t5_def)

lemma exC_fields:
  "duration exC = 1 / 2" "mouldingMachines exC = 2" "inspectionStations exC = 1"
  "packagingMachines exC = 1" "arrivalIntervalMean exC = exC_mean"
  "degradationCostPerMinute exC = 1" "degradationThreshold exC = 0"
  "replications exC = 1" "seed exC = - 149779"
  by (simp_all add: exC_def)

lemma exC_init: "init_state exC = \<lparr>rng = - 130302, currentTime = 0, queue = [exC_ev1], jobs = [],
      mouldingFree = 2, inspectionFree = 1, packagingFree = 1,
      mouldingQueue = [], inspectionQueue = [], packagingQueue = [],
      totalMouldingBusyTime = 0, totalInspectionBusyTime = 0, totalPackagingBusyTime = 0,
      lastEventTime = 0, wipArea = 0, currentWip = 0\<rparr>"
  by (simp add: init_state_def exC_fields exC_e1 schedule_def exC_ev1_def)

lemma exC_step1: "process_event exC exC_ev1 (init_state exC\<lparr>queue := []\<rparr>) = Inr exC_s1"
proof -
  have a: "exC_t1 + exC_x3 < 1 / 2" "exC_t1 + exC_x3 \<le> 0"
    using exC_t2_bounds by (simp_all add: exC_t2_def)
  have b: "exC_x3 \<le> exC_y4" using exC_x3_bounds exC_y4_bounds by simp
  from a b show ?thesis
    by (simp add: exC_init process_event_def advance_clock_def exC_ev1_def on_arrival_def
        create_job_def schedule_next_arrival_def dispatch_moulding_def exC_c2 exC_e3
        start_moulding_def upd_job_def exC_e4 schedule_def exC_s1_def exC_job0_def
        exC_ev2_def exC_ev4_def exC_fields exC_zero exC_t2_def Let_def)
qed

lemma exC_step2: "process_event exC exC_ev2 (exC_s1\<lparr>queue := [exC_ev4]\<rparr>) = Inr exC_s2"
proof -
  have a: "\<not> exC_t2 + exC_x6 < 1 / 2" by (rule exC_next_arrival_late)
  have b: "\<not> 0 \<le> exC_t2 + exC_y7" using exC_t3_bounds by (simp add: exC_t3_def)
  from a b show ?thesis
    by (simp add: process_event_def advance_clock_def exC_ev2_def exC_s1_def on_arrival_def
        create_job_def schedule_next_arrival_def dispatch_moulding_def exC_c5 exC_e6
        start_moulding_def upd_job_def exC_e7 schedule_def exC_s2_def exC_job0_def exC_job1_def
        exC_ev3_def exC_ev4_def exC_fields exC_t3_def Let_def)
qed

lemma exC_step3: "process_event exC exC_ev3 (exC_s2\<lparr>queue := [exC_ev4]\<rparr>) = Inr exC_s3"
proof -
  have a: "exC_t2 \<noteq> 0" using exC_t2_bounds by simp
  have b: "0 \<le> exC_t3 + exC_y8" using exC_t5_bounds by (simp add: exC_t5_def)
  from a b show ?thesis
    by (simp add: process_event_def advance_clock_def exC_ev3_def exC_s2_def
        on_moulding_finish_def release_moulding_def pull_moulding_def dispatch_inspection_def
        start_inspection_def upd_job_def exC_e8 schedule_def exC_s3_def exC_job0_def
        exC_job1_def exC_ev4_def exC_ev5_def exC_t5_def Let_def)
qed

lemma exC_step4: "process_event exC exC_ev4 (exC_s3\<lparr>queue := [exC_ev5]\<rparr>) = Inr exC_s4"
proof -
  have a: "exC_t1 \<noteq> 0" using exC_t1_bounds by simp
  from a show ?thesis
    by (simp add: process_event_def advance_clock_def exC_ev4_def exC_s3_def
        on_moulding_finish_def release_moulding_def pull_moulding_def dispatch_inspection_def
        upd_job_def exC_s4_def exC_job0_def exC_job1_def exC_ev5_def Let_def)
qed

lemma exC_step5: "process_event exC exC_ev5 (exC_s4\<lparr>queue := []\<rparr>) = Inr exC_final"
proof -
  have a: "exC_t3 \<noteq> 0" using exC_t3_bounds by simp
  from a show ?thesis
    by (simp add: process_event_def advance_clock_def exC_ev5_def exC_s4_def
        on_inspection_finish_def release_inspection_def pull_inspection_def
        dispatch_packaging_def start_inspection_def start_packaging_def upd_job_def
        exC_e9 exC_e10 exC_final_def exC_job0_def exC_job1_def Let_def)
qed

lemma exC_loop: "loop exC (init_state exC) = Some (Inr exC_final)"
proof -
  have g0: "currentTime (init_state exC) < duration exC" by (simp add: exC_init exC_fields)
  have q0: "queue (init_state exC) = [exC_ev1]" by (simp add: exC_init)
  have g1: "currentTime exC_s1 < duration exC"
    using exC_t1_bounds by (simp add: exC_s1_def exC_fields)
  have q1: "queue exC_s1 = [exC_ev2, exC_ev4]" by (simp add: exC_s1_def)
  have g2: "currentTime exC_s2 < duration exC"
    using exC_t2_bounds by (simp add: exC_s2_def exC_fields)
  have q2: "queue exC_s2 = [exC_ev3, exC_ev4]" by (simp add: exC_s2_def)
  have g3: "currentTime exC_s3 < duration exC"
    using exC_t3_bounds by (simp add: exC_s3_def exC_fields)
  have q3: "queue exC_s3 = [exC_ev4, exC_ev5]" by (simp add: exC_s3_def)
  have g4: "currentTime exC_s4 < duration exC" by (simp add: exC_s4_def exC_fields)
  have q4: "queue exC_s4 = [exC_ev5]" by (simp add: exC_s4_def)
  have g5: "\<not> currentTime exC_final < duration exC"
    using exC_t5_bounds by (simp add: exC_final_def exC_fields)
  have l5: "loop exC exC_final = Some (Inr exC_final)"
    using g5 by (subst loop.simps) (simp split: list.split)
  have l4: "loop exC exC_s4 = Some (Inr exC_final)"
    using g4 q4 exC_step5 l5 by (subst loop.simps) simp
  have l3: "loop exC exC_s3 = Some (Inr exC_final)"
    using g3 q3 exC_step4 l4 by (subst loop.simps) simp
  have l2: "loop exC exC_s2 = Some (Inr exC_final)"
    using g2 q2 exC_step3 l3 by (subst loop.simps) simp
  have l1: "loop exC exC_s1 = Some (Inr exC_final)"
    using g1 q1 exC_step2 l2 by (subst loop.simps) simp
  show ?thesis
    using g0 q0 exC_step1 l1 by (subst loop.simps) simp
qed

lemma exC_single: "runSingleSimulation exC = Some (Inr (run_stats exC exC_final))"
  by (simp add: runSingleSimulation_def exC_loop first_draw_small exC_fields)

section \<open>The blocks of the loop body\<close>

lemma productType_upd [simp]:
  "productType (upd_job j (\<lambda>b. b\<lparr>mouldingStartTime := v\<rparr>) js ! j) = productType (js ! j)"
  "productType (upd_job j (\<lambda>b. b\<lparr>inspectionStartTime := v\<rparr>) js ! j) = productType (js ! j)"
  "productType (upd_job j (\<lambda>b. b\<lparr>packagingStartTime := v\<rparr>) js ! j) = productType (js ! j)"
  by (cases "j < length js"; simp add: upd_job_def list_update_beyond)+

lemma length_upd_job [simp]: "length (upd_job j f js) = length js"
  by (simp add: upd_job_def)

lemma start_moulding_eq:
  "start_moulding j s =
     s\<lparr>mouldingFree := mouldingFree s - 1,
       jobs := upd_job j (\<lambda>b. b\<lparr>mouldingStartTime := Some (currentTime s)\<rparr>) (jobs s),
       rng := snd (getProcessTime Moulding (productType (jobs s ! j)) (rng s)),
       queue := schedule MOULDING_FINISH
         (currentTime s + fst (getProcessTime Moulding (productType (jobs s ! j)) (rng s)))
         (Some j) (queue s)\<rparr>"
  by (simp add: start_moulding_def Let_def split_beta)

lemma start_inspection_eq:
  "start_inspection j s =
     s\<lparr>inspectionFree := inspectionFree s - 1,
       jobs := upd_job j (\<lambda>b. b\<lparr>inspectionStartTime := Some (currentTime s)\<rparr>) (jobs s),
       rng := snd (getProcessTime Inspection (productType (jobs s ! j)) (rng s)),
       queue := schedule INSPECTION_FINISH
         (currentTime s + fst (getProcessTime Inspection (productType (jobs s ! j)) (rng s)))
         (Some j) (queue s)\<rparr>"
  by (simp add: start_inspection_def Let_def split_beta)

lemma start_packaging_eq:
  "start_packaging j s =
     s\<lparr>packagingFree := packagingFree s - 1,
       jobs := upd_job j (\<lambda>b. b\<lparr>packagingStartTime := Some (currentTime s)\<rparr>) (jobs s),
       rng := snd (getProcessTime Packaging (productType (jobs s ! j)) (rng s)),
       queue := schedule PACKAGING_FINISH
         (currentTime s + fst (getProcessTime Packaging (productType (jobs s ! j)) (rng s)))
         (Some j) (queue s)\<rparr>"
  by (simp add: start_packaging_def Let_def split_beta)

lemma create_job_eq:
  "create_job s =
     s\<lparr>currentWip := currentWip s + 1,
       rng := snd (choice (rng s) [TypeA, TypeB, TypeC, TypeD]),
       jobs := jobs s @ [\<lparr>job_id = length (jobs s) + 1,
          productType = fst (choice (rng s) [TypeA, TypeB, TypeC, TypeD]),
          arrivalTime = currentTime s,
          mouldingStartTime = None, mouldingEndTime = None,
          inspectionStartTime = None, inspectionEndTime = None,
          packagingStartTime = None, packagingEndTime = None, finished = False\<rparr>]\<rparr>"
  by (simp add: create_job_def Let_def split_beta)

lemma schedule_next_arrival_eq:
  "schedule_next_arrival c s =
     (if currentTime s + fst (exponential (rng s) (arrivalIntervalMean c)) < duration c
      then s\<lparr>rng := snd (exponential (rng s) (arrivalIntervalMean c)),
             queue := schedule ARRIVAL
               (currentTime s + fst (exponential (rng s) (arrivalIntervalMean c))) None (queue s)\<rparr>
      else s\<lparr>rng := snd (exponential (rng s) (arrivalIntervalMean c))\<rparr>)"
  by (simp add: schedule_next_arrival_def Let_def split_beta)

lemma start_after_end [simp]:
  "mouldingStartTime (upd_job j (\<lambda>b. b\<lparr>mouldingEndTime := v\<rparr>) js ! j) = mouldingStartTime (js ! j)"
  "inspectionStartTime (upd_job j (\<lambda>b. b\<lparr>inspectionEndTime := v\<rparr>) js ! j) = inspectionStartTime (js ! j)"
  "packagingStartTime (upd_job j (\<lambda>b. b\<lparr>packagingEndTime := v\<rparr>) js ! j) = packagingStartTime (js ! j)"
  by (cases "j < length js"; simp add: upd_job_def list_update_beyond)+

lemma release_moulding_eq:
  "release_moulding j s =
     s\<lparr>jobs := upd_job j (\<lambda>b. b\<lparr>mouldingEndTime := Some (currentTime s)\<rparr>) (jobs s),
       totalMouldingBusyTime := totalMouldingBusyTime s
          + service_time (mouldingStartTime (jobs s ! j)) (currentTime s),
       mouldingFree := mouldingFree s + 1\<rparr>"
  by (simp add: release_moulding_def Let_def service_time_def split: option.split)

lemma release_inspection_eq:
  "release_inspection j s =
     s\<lparr>jobs := upd_job j (\<lambda>b. b\<lparr>inspectionEndTime := Some (currentTime s)\<rparr>) (jobs s),
       totalInspectionBusyTime := totalInspectionBusyTime s
          + service_time (inspectionStartTime (jobs s ! j)) (currentTime s),
       inspectionFree := inspectionFree s + 1\<rparr>"
  by (simp add: release_inspection_def Let_def service_time_def split: option.split)

lemma upd_job_twice: "upd_job j f (upd_job j g js) = upd_job j (\<lambda>b. f (g b)) js"
  by (cases "j < length js") (simp_all add: upd_job_def list_update_beyond)

lemma release_packaging_eq:
  "release_packaging j s =
     s\<lparr>currentWip := currentWip s - 1,
       jobs := upd_job j (\<lambda>b. b\<lparr>packagingEndTime := Some (currentTime s), finished := True\<rparr>) (jobs s),
       totalPackagingBusyTime := totalPackagingBusyTime s
          + service_time (packagingStartTime (jobs s ! j)) (currentTime s),
       packagingFree := packagingFree s + 1\<rparr>"
  by (simp add: release_packaging_def Let_def service_time_def upd_job_twice split: option.split)

lemmas block_eqs = start_moulding_eq start_inspection_eq start_packaging_eq create_job_eq
  schedule_next_arrival_eq release_moulding_eq release_inspection_eq release_packaging_eq
  dispatch_moulding_def dispatch_inspection_def dispatch_packaging_def
  pull_moulding_def pull_inspection_def pull_packaging_def

lemmas handler_defs = on_arrival_def on_moulding_finish_def on_inspection_finish_def
  on_packaging_finish_def

lemma process_event_cases:
  assumes "process_event c ev s = Inr s'"
  obtains (arrival) "type ev = ARRIVAL" "s' = on_arrival c (advance_clock ev s)"
  | (moulding) j where "type ev = MOULDING_FINISH" "job ev = Some j"
      "s' = on_moulding_finish j (advance_clock ev s)"
  | (inspection) j where "type ev = INSPECTION_FINISH" "job ev = Some j"
      "s' = on_inspection_finish j (advance_clock ev s)"
  | (packaging) j where "type ev = PACKAGING_FINISH" "job ev = Some j"
      "s' = on_packaging_finish j (advance_clock ev s)"
  using assms
  by (cases "type ev"; cases "job ev"; simp add: process_event_def Let_def; blast)


lemma handlers_clock:
  "currentTime (on_arrival c s) = currentTime s"
  "currentTime (on_moulding_finish j s) = currentTime s"
  "currentTime (on_inspection_finish j s) = currentTime s"
  "currentTime (on_packaging_finish j s) = currentTime s"
  by (simp_all add: handler_defs block_eqs split: list.split)

lemma process_event_clock:
  assumes "process_event c ev s = Inr s'"
  shows "currentTime s' = time ev"
  using assms by (cases rule: process_event_cases) (simp_all add: handlers_clock advance_clock_def)

lemma handlers_wip:
  "currentWip (on_arrival c s) = currentWip s + 1"
  "currentWip (on_moulding_finish j s) = currentWip s"
  "currentWip (on_inspection_finish j s) = currentWip s"
  "currentWip (on_packaging_finish j s) = currentWip s - 1"
  "wipArea (on_arrival c s) = wipArea s"
  "wipArea (on_moulding_finish j s) = wipArea s"
  "wipArea (on_inspection_finish j s) = wipArea s"
  "wipArea (on_packaging_finish j s) = wipArea s"
  "lastEventTime (on_arrival c s) = lastEventTime s"
  "lastEventTime (on_moulding_finish j s) = lastEventTime s"
  "lastEventTime (on_inspection_finish j s) = lastEventTime s"
  "lastEventTime (on_packaging_finish j s) = lastEventTime s"
  by (simp_all add: handler_defs block_eqs split: list.split)

lemma process_event_wip:
  assumes "process_event c ev s = Inr s'"
  shows "currentWip s' = currentWip s + wip_delta (type ev)"
    and "wipArea s' = wipArea s + real_of_int (currentWip s) * (time ev - lastEventTime s)"
    and "lastEventTime s' = time ev"
  using assms by (cases rule: process_event_cases; simp add: handlers_wip advance_clock_def)+

section \<open>The loop\<close>

lemma loop_run_steps:
  assumes l: "loop c s = Some (Inr sf)"
  shows "\<exists>evs. run_steps c s evs sf \<and> (queue sf = [] \<or> \<not> currentTime sf < duration c)"
proof -
  let ?P = "\<lambda>d s (y :: error + SimState). \<forall>sf. y = Inr sf \<longrightarrow>
     (\<exists>evs. run_steps d s evs sf \<and> (queue sf = [] \<or> \<not> currentTime sf < duration d))"
  have "?P c s (Inr sf)"
  proof (rule loop.raw_induct [where P = ?P, OF _ l])
    fix lp d s y
    assume ih: "\<And>d' s' y'. lp d' s' = Some y' \<Longrightarrow> ?P d' s' y'"
    assume body: "(case queue s of [] \<Rightarrow> Some (Inr s)
          | ev # rest \<Rightarrow>
              if currentTime s < duration d
              then case process_event d ev (s\<lparr>queue := rest\<rparr>) of Inl e \<Rightarrow> Some (Inl e)
                   | Inr s' \<Rightarrow> lp d s'
              else Some (Inr s)) = Some y"
    show "?P d s y"
    proof (intro allI impI)
      fix sf assume y: "y = Inr sf"
      show "\<exists>evs. run_steps d s evs sf \<and> (queue sf = [] \<or> \<not> currentTime sf < duration d)"
      proof (cases "queue s")
        case Nil
        with body y have "sf = s" by simp
        with Nil show ?thesis by (auto intro: steps_nil)
      next
        case (Cons ev rest)
        show ?thesis
        proof (cases "currentTime s < duration d")
          case False
          with body y Cons have "sf = s" by simp
          with False show ?thesis by (auto intro: steps_nil)
        next
          case True
          show ?thesis
          proof (cases "process_event d ev (s\<lparr>queue := rest\<rparr>)")
            case (Inl e)
            with body y Cons True show ?thesis by simp
          next
            case (Inr s')
            with body Cons True have "lp d s' = Some y" by simp
            from ih [OF this] y obtain evs where
              "run_steps d s' evs sf" "queue sf = [] \<or> \<not> currentTime sf < duration d"
              by blast
            with steps_cons [OF Cons True Inr] show ?thesis by blast
          qed
        qed
      qed
    qed
  qed
  then show ?thesis by simp
qed

lemma run_steps_invariant:
  assumes "run_steps c s evs s'" and "P s"
    and "\<And>s ev rest s'. P s \<Longrightarrow> queue s = ev # rest \<Longrightarrow> currentTime s < duration c \<Longrightarrow>
           process_event c ev (s\<lparr>queue := rest\<rparr>) = Inr s' \<Longrightarrow> P s'"
  shows "P s'"
  using assms(1,2)
proof (induction rule: run_steps.induct)
  case (steps_nil s)
  then show ?case .
next
  case (steps_cons s ev rest s' evs s'')
  from assms(3) [OF steps_cons.prems steps_cons.hyps(1,2,3)] have "P s'" .
  then show ?case by (rule steps_cons.IH)
qed

subsection \<open>The clock\<close>

lemma run_steps_clock:
  assumes "run_steps c s evs s'"
  shows "(\<forall>e \<in> set (butlast evs). time e < duration c)
       \<and> (evs \<noteq> [] \<longrightarrow> currentTime s < duration c \<and> currentTime s' = time (last evs))"
  using assms
proof (induction rule: run_steps.induct)
  case (steps_nil s)
  then show ?case by simp
next
  case (steps_cons s ev rest s' evs s'')
  from process_event_clock [OF steps_cons.hyps(3)] have t: "currentTime s' = time ev" .
  show ?case
  proof (cases "evs = []")
    case True
    with steps_cons.hyps(4) have "s'' = s'" by (auto elim: run_steps.cases)
    with True t steps_cons.hyps(2) show ?thesis by simp
  next
    case False
    with steps_cons.IH t have "time ev < duration c" "currentTime s'' = time (last evs)"
      "\<forall>e \<in> set (butlast evs). time e < duration c" by simp_all
    with False steps_cons.hyps(2) show ?thesis by simp
  qed
qed

subsection \<open>Work in process\<close>

lemma run_steps_wip:
  assumes "run_steps c s evs s'"
  shows "currentWip s' = wip_after (currentWip s) evs
       \<and> wipArea s' = wipArea s + wip_accum (currentWip s) (lastEventTime s) evs"
  using assms
proof (induction rule: run_steps.induct)
  case (steps_nil s)
  then show ?case by simp
next
  case (steps_cons s ev rest s' evs s'')
  from process_event_wip [OF steps_cons.hyps(3)]
  have "currentWip s' = currentWip s + wip_delta (type ev)"
    "wipArea s' = wipArea s + real_of_int (currentWip s) * (time ev - lastEventTime s)"
    "lastEventTime s' = time ev" by simp_all
  with steps_cons.IH show ?case by simp
qed

lemma length_filter_schedule:
  "length (filter P (schedule ty t j q))
     = length (filter P q) + (if P \<lparr>time = t, type = ty, job = j\<rparr> then 1 else 0)"
  by (simp add: schedule_def filter_sort)

lemma set_schedule [simp]:
  "set (schedule ty t j q) = insert \<lparr>time = t, type = ty, job = j\<rparr> (set q)"
  by (simp add: schedule_def)

lemma in_system_blocks:
  "in_system (start_moulding j s) = in_system s + 1"
  "in_system (start_inspection j s) = in_system s + 1"
  "in_system (start_packaging j s) = in_system s + 1"
  "in_system (dispatch_moulding j s) = in_system s + 1"
  "in_system (dispatch_inspection j s) = in_system s + 1"
  "in_system (dispatch_packaging j s) = in_system s + 1"
  "in_system (pull_moulding s) = in_system s"
  "in_system (pull_inspection s) = in_system s"
  "in_system (pull_packaging s) = in_system s"
  "in_system (release_moulding j s) = in_system s"
  "in_system (release_inspection j s) = in_system s"
  "in_system (release_packaging j s) = in_system s"
  "in_system (create_job s) = in_system s"
  "in_system (schedule_next_arrival c s) = in_system s"
  "in_system (advance_clock ev s) = in_system s"
  by (simp_all add: block_eqs in_system_def length_filter_schedule advance_clock_def
      split: list.split)

lemma in_system_handlers:
  "in_system (on_arrival c s) = in_system s + 1"
  "in_system (on_moulding_finish j s) = in_system s + 1"
  "in_system (on_inspection_finish j s) = in_system s + 1"
  "in_system (on_packaging_finish j s) = in_system s"
  by (simp_all add: handler_defs in_system_blocks)

lemma process_event_in_system:
  assumes "process_event c ev (s\<lparr>queue := rest\<rparr>) = Inr s'" and "queue s = ev # rest"
  shows "in_system s' - currentWip s' = in_system s - currentWip s"
proof -
  have q: "in_system (s\<lparr>queue := rest\<rparr>) = in_system s - (if type ev = ARRIVAL then 0 else 1)"
    using assms(2) by (simp add: in_system_def)
  have w: "currentWip (advance_clock ev (s\<lparr>queue := rest\<rparr>)) = currentWip s"
    by (simp add: advance_clock_def)
  from assms(1) show ?thesis
    by (cases rule: process_event_cases)
      (simp_all add: in_system_handlers in_system_blocks handlers_wip q w)
qed

lemma run_steps_in_system:
  assumes "run_steps c s evs s'"
  shows "in_system s' - currentWip s' = in_system s - currentWip s"
  using assms
proof (induction rule: run_steps.induct)
  case (steps_nil s)
  then show ?case by simp
next
  case (steps_cons s ev rest s' evs s'')
  from process_event_in_system [OF steps_cons.hyps(3,1)] steps_cons.IH show ?case by simp
qed

lemma init_state_fields:
  "currentTime (init_state c) = 0" "jobs (init_state c) = []"
  "currentWip (init_state c) = 0" "wipArea (init_state c) = 0" "lastEventTime (init_state c) = 0"
  "mouldingQueue (init_state c) = []" "inspectionQueue (init_state c) = []"
  "packagingQueue (init_state c) = []"
  "totalMouldingBusyTime (init_state c) = 0" "totalInspectionBusyTime (init_state c) = 0"
  "totalPackagingBusyTime (init_state c) = 0"
  "mouldingFree (init_state c) = mouldingMachines c"
  "inspectionFree (init_state c) = inspectionStations c"
  "packagingFree (init_state c) = packagingMachines c"
  "rng (init_state c) = snd (exponential (double_of (seed c)) (arrivalIntervalMean c))"
  "queue (init_state c) =
     [\<lparr>time = fst (exponential (double_of (seed c)) (arrivalIntervalMean c)), type = ARRIVAL, job = None\<rparr>]"
  by (simp_all add: init_state_def split_beta schedule_def)

lemma init_in_system: "in_system (init_state c) = 0"
  by (simp add: in_system_def init_state_fields)

lemma run_steps_wip_nonneg:
  assumes "run_steps c (init_state c) evs s'"
  shows "0 \<le> currentWip s'"
proof -
  from run_steps_in_system [OF assms] have "currentWip s' = in_system s'"
    by (simp add: init_in_system init_state_fields)
  then show ?thesis by (simp add: in_system_def)
qed

subsection \<open>Job references\<close>

lemma refs_ok_blocks:
  "refs_ok s \<Longrightarrow> j < length (jobs s) \<Longrightarrow> refs_ok (start_moulding j s)"
  "refs_ok s \<Longrightarrow> j < length (jobs s) \<Longrightarrow> refs_ok (start_inspection j s)"
  "refs_ok s \<Longrightarrow> j < length (jobs s) \<Longrightarrow> refs_ok (start_packaging j s)"
  "refs_ok s \<Longrightarrow> j < length (jobs s) \<Longrightarrow> refs_ok (dispatch_moulding j s)"
  "refs_ok s \<Longrightarrow> j < length (jobs s) \<Longrightarrow> refs_ok (dispatch_inspection j s)"
  "refs_ok s \<Longrightarrow> j < length (jobs s) \<Longrightarrow> refs_ok (dispatch_packaging j s)"
  "refs_ok s \<Longrightarrow> refs_ok (pull_moulding s)"
  "refs_ok s \<Longrightarrow> refs_ok (pull_inspection s)"
  "refs_ok s \<Longrightarrow> refs_ok (pull_packaging s)"
  "refs_ok s \<Longrightarrow> refs_ok (release_moulding j s)"
  "refs_ok s \<Longrightarrow> refs_ok (release_inspection j s)"
  "refs_ok s \<Longrightarrow> refs_ok (release_packaging j s)"
  "refs_ok s \<Longrightarrow> refs_ok (schedule_next_arrival c s)"
  "refs_ok s \<Longrightarrow> refs_ok (advance_clock ev s)"
  by (auto simp: block_eqs refs_ok_def advance_clock_def split: list.split option.splits)

lemma refs_ok_create_job: "refs_ok s \<Longrightarrow> refs_ok (create_job s)"
  by (auto simp: create_job_eq refs_ok_def split: option.splits)

lemma jobs_length_blocks:
  "length (jobs (start_moulding j s)) = length (jobs s)"
  "length (jobs (start_inspection j s)) = length (jobs s)"
  "length (jobs (start_packaging j s)) = length (jobs s)"
  "length (jobs (dispatch_moulding j s)) = length (jobs s)"
  "length (jobs (dispatch_inspection j s)) = length (jobs s)"
  "length (jobs (dispatch_packaging j s)) = length (jobs s)"
  "length (jobs (pull_moulding s)) = length (jobs s)"
  "length (jobs (pull_inspection s)) = length (jobs s)"
  "length (jobs (pull_packaging s)) = length (jobs s)"
  "length (jobs (release_moulding j s)) = length (jobs s)"
  "length (jobs (release_inspection j s)) = length (jobs s)"
  "length (jobs (release_packaging j s)) = length (jobs s)"
  "length (jobs (schedule_next_arrival c s)) = length (jobs s)"
  "length (jobs (advance_clock ev s)) = length (jobs s)"
  "length (jobs (create_job s)) = Suc (length (jobs s))"
  by (simp_all add: block_eqs advance_clock_def split: list.split)

lemma refs_ok_handlers:
  "refs_ok s \<Longrightarrow> refs_ok (on_arrival c s)"
  "refs_ok s \<Longrightarrow> j < length (jobs s) \<Longrightarrow> refs_ok (on_moulding_finish j s)"
  "refs_ok s \<Longrightarrow> j < length (jobs s) \<Longrightarrow> refs_ok (on_inspection_finish j s)"
  "refs_ok s \<Longrightarrow> j < length (jobs s) \<Longrightarrow> refs_ok (on_packaging_finish j s)"
  by (simp_all add: handler_defs refs_ok_blocks refs_ok_create_job jobs_length_blocks)

lemma refs_ok_tail:
  assumes "refs_ok s" and "queue s = ev # rest"
  shows "refs_ok (s\<lparr>queue := rest\<rparr>)"
    and "case job ev of None \<Rightarrow> type ev = ARRIVAL | Some j \<Rightarrow> j < length (jobs s)"
  using assms by (auto simp: refs_ok_def split: option.splits)

lemma process_event_refs_ok:
  assumes "refs_ok s" and "queue s = ev # rest"
  shows "\<exists>s'. process_event c ev (s\<lparr>queue := rest\<rparr>) = Inr s' \<and> refs_ok s'"
proof -
  let ?s1 = "advance_clock ev (s\<lparr>queue := rest\<rparr>)"
  from refs_ok_tail [OF assms] have r: "refs_ok ?s1"
    and j: "case job ev of None \<Rightarrow> type ev = ARRIVAL | Some j \<Rightarrow> j < length (jobs s)"
    by (simp_all add: refs_ok_blocks)
  have l: "length (jobs ?s1) = length (jobs s)" by (simp add: advance_clock_def)
  show ?thesis
  proof (cases "job ev")
    case None
    with j have "type ev = ARRIVAL" by simp
    with r show ?thesis by (simp add: process_event_def refs_ok_handlers)
  next
    case (Some n)
    with j l have "n < length (jobs ?s1)" by simp
    with r Some show ?thesis
      by (cases "type ev") (simp_all add: process_event_def refs_ok_handlers)
  qed
qed

lemma init_refs_ok: "refs_ok (init_state c)"
  by (simp add: refs_ok_def init_state_fields)

lemma loop_no_error:
  assumes l: "loop c s = Some y" and r: "refs_ok s"
  shows "\<exists>sf. y = Inr sf"
proof -
  let ?P = "\<lambda>(d::SimulationConfig) s (y :: error + SimState). refs_ok s \<longrightarrow> (\<exists>sf. y = Inr sf)"
  have "?P c s y"
  proof (rule loop.raw_induct [where P = ?P, OF _ l])
    fix lp d s y
    assume ih: "\<And>d' s' y'. lp d' s' = Some y' \<Longrightarrow> ?P d' s' y'"
    assume body: "(case queue s of [] \<Rightarrow> Some (Inr s)
          | ev # rest \<Rightarrow>
              if currentTime s < duration d
              then case process_event d ev (s\<lparr>queue := rest\<rparr>) of Inl e \<Rightarrow> Some (Inl e)
                   | Inr s' \<Rightarrow> lp d s'
              else Some (Inr s)) = Some y"
    show "?P d s y"
    proof
      assume r: "refs_ok s"
      show "\<exists>sf. y = Inr sf"
      proof (cases "queue s")
        case Nil
        with body show ?thesis by auto
      next
        case (Cons ev rest)
        show ?thesis
        proof (cases "currentTime s < duration d")
          case False
          with body Cons show ?thesis by auto
        next
          case True
          from process_event_refs_ok [OF r Cons] obtain s' where
            p: "process_event d ev (s\<lparr>queue := rest\<rparr>) = Inr s'" and r': "refs_ok s'" by blast
          with body Cons True have "lp d s' = Some y" by simp
          from ih [OF this] r' show ?thesis by simp
        qed
      qed
    qed
  qed
  with r show ?thesis by simp
qed

lemma run_steps_take:
  assumes "run_steps c s evs s'"
  shows "\<exists>s''. run_steps c s (take n evs) s''"
  using assms
proof (induction arbitrary: n rule: run_steps.induct)
  case (steps_nil s)
  show ?case by (auto intro: run_steps.steps_nil)
next
  case (steps_cons s ev rest s' evs s'')
  show ?case
  proof (cases n)
    case 0
    then show ?thesis by (auto intro: run_steps.steps_nil)
  next
    case (Suc m)
    from steps_cons.IH [of m] obtain t where "run_steps c s' (take m evs) t" by blast
    from run_steps.steps_cons [OF steps_cons.hyps(1,2,3) this] Suc show ?thesis by auto
  qed
qed

lemma run_steps_zero_duration:
  assumes "run_steps c s evs s'" and "\<not> currentTime s < duration c"
  shows "evs = [] \<and> s' = s"
  using assms by (auto elim: run_steps.cases)

lemma runSingleSimulation_no_error: "runSingleSimulation c \<noteq> Some (Inl e)"
proof (cases "loop c (init_state c)")
  case None
  then show ?thesis by (simp add: runSingleSimulation_def split: option.split)
next
  case (Some y)
  from loop_no_error [OF Some init_refs_ok] obtain sf where "y = Inr sf" by blast
  with Some show ?thesis by (simp add: runSingleSimulation_def split: option.split)
qed

text \<open>
  The guard of the loop tests the clock, which is the timestamp of the event processed
  last (0 before the first): every processed event but the last has a timestamp below
  the duration, and at the end the queue is empty or the clock has reached the duration.
\<close>

lemma loop_guard_on_clock:
  assumes "loop c (init_state c) = Some (Inr sf)"
  shows "\<exists>evs. run_steps c (init_state c) evs sf
       \<and> (\<forall>e \<in> set (butlast evs). time e < duration c)
       \<and> currentTime sf = (if evs = [] then 0 else time (last evs))
       \<and> (queue sf = [] \<or> duration c \<le> currentTime sf)"
proof -
  from loop_run_steps [OF assms] obtain evs where
    r: "run_steps c (init_state c) evs sf"
    and e: "queue sf = [] \<or> \<not> currentTime sf < duration c" by blast
  from run_steps_clock [OF r] have
    b: "\<forall>e \<in> set (butlast evs). time e < duration c"
    and l: "evs \<noteq> [] \<longrightarrow> currentTime sf = time (last evs)" by simp_all
  have "currentTime sf = (if evs = [] then 0 else time (last evs))"
  proof (cases "evs = []")
    case True
    with r have "sf = init_state c" by (auto elim: run_steps.cases)
    with True show ?thesis by (simp add: init_state_fields)
  next
    case False
    with l show ?thesis by simp
  qed
  with r b e show ?thesis by (auto simp: not_less)
qed

text \<open>
  C1. No event with a timestamp at or after the duration is to be processed, and the clock
  is not to pass the duration. The code breaks this on the run of \<open>exA\<close> (duration one
  half): the loop returns after the two events \<open>exA_e1ev\<close> and \<open>exA_e2ev\<close>; the second, a
  moulding finish, has a timestamp beyond the duration, and the clock ends there, beyond
  the duration.
\<close>

theorem loop_guard_counterexample:
  "loop exA (init_state exA) = Some (Inr exA_final)
   \<and> run_steps exA (init_state exA) [exA_e1ev, exA_e2ev] exA_final
   \<and> duration exA \<le> time exA_e2ev
   \<and> duration exA < currentTime exA_final"
proof -
  have d: "duration exA < exA_t1 + exA_y4"
    using exA_t1_bounds exA_y4_bounds by (simp add: exA_fields)
  from d have t: "duration exA \<le> time exA_e2ev" by (simp add: exA_e2ev_def)
  from d have u: "duration exA < currentTime exA_final" by (simp add: exA_final_def)
  from exA_loop exA_run_steps t u show ?thesis by blast
qed

text \<open>
  The WIP counter is the value that starts at 0 and changes by \<open>+1\<close> at each processed
  arrival and by \<open>-1\<close> at each processed packaging finish, and it is never negative, also
  after any shorter sequence of the processed events. The accumulated area is the area
  under it from 0 to the timestamp of the last processed event, with the value before
  each event for the interval that ends at the event.
\<close>

lemma wip_area_accumulated:
  assumes "run_steps c (init_state c) evs sf"
  shows "currentWip sf = wip_after 0 evs
       \<and> (\<forall>n \<le> length evs. 0 \<le> wip_after 0 (take n evs))
       \<and> wipArea sf = wip_accum 0 0 evs
       \<and> (\<exists>a. avgWip (run_stats c sf) = Some a \<and> a * duration c = wip_accum 0 0 evs)"
proof -
  from run_steps_wip [OF assms] have
    w: "currentWip sf = wip_after 0 evs" and a: "wipArea sf = wip_accum 0 0 evs"
    by (simp_all add: init_state_fields)
  have n: "0 \<le> wip_after 0 (take n evs)" for n
  proof -
    from run_steps_take [OF assms, of n] obtain t where
      t: "run_steps c (init_state c) (take n evs) t" by blast
    from run_steps_wip [OF t] have "currentWip t = wip_after 0 (take n evs)"
      by (simp add: init_state_fields)
    with run_steps_wip_nonneg [OF t] show ?thesis by simp
  qed
  have "safeDiv (wipArea sf) (duration c) * duration c = wip_accum 0 0 evs"
  proof (cases "duration c = 0")
    case True
    with run_steps_zero_duration [OF assms] have "evs = []"
      by (simp add: init_state_fields)
    with True show ?thesis by simp
  next
    case False
    then show ?thesis by (simp add: safeDiv_def a)
  qed
  then have "\<exists>a. avgWip (run_stats c sf) = Some a \<and> a * duration c = wip_accum 0 0 evs"
    by (simp add: run_stats_def Let_def)
  with w a n show ?thesis by simp
qed

text \<open>
  C2. \<open>avgWip * duration\<close> is to be the integral of the instantaneous WIP over the interval
  from 0 to the duration. The code breaks this on the run of \<open>exA\<close>: the one job arrives
  at \<open>exA_t1\<close>, before the duration of one half, and is in process from then on, so that
  the integral of WIP up to the duration is below one half (and the WIP is never above
  1); the area the code accumulates runs to the second event, beyond the duration, and
  \<open>avgWip * duration\<close> is the whole moulding time of the job, more than 14.
\<close>

theorem wip_area_counterexample:
  "run_steps exA (init_state exA) [exA_e1ev, exA_e2ev] exA_final
   \<and> runSingleSimulation exA = Some (Inr (run_stats exA exA_final))
   \<and> wip_after 0 [] = 0 \<and> wip_after 0 [exA_e1ev] = 1 \<and> wip_after 0 [exA_e1ev, exA_e2ev] = 1
   \<and> wip_integral (duration exA) 0 0 [exA_e1ev, exA_e2ev] \<le> 1 / 2
   \<and> avgWip (run_stats exA exA_final) = Some (exA_y4 * 2)
   \<and> 14 \<le> exA_y4 * 2 * duration exA
   \<and> exA_y4 * 2 * duration exA \<noteq> wip_integral (duration exA) 0 0 [exA_e1ev, exA_e2ev]"
proof -
  have i: "wip_integral (duration exA) 0 0 [exA_e1ev, exA_e2ev] = 1 / 2 - exA_t1"
    using exA_t1_bounds exA_y4_bounds
    by (simp add: exA_e1ev_def exA_e2ev_def exA_fields min_def)
  have a: "avgWip (run_stats exA exA_final) = Some (exA_y4 * 2)"
    by (simp add: run_stats_def Let_def safeDiv_def exA_fields exA_final_def)
  have w: "wip_after 0 [] = 0" "wip_after 0 [exA_e1ev] = 1"
    "wip_after 0 [exA_e1ev, exA_e2ev] = 1"
    by (simp_all add: exA_e1ev_def exA_e2ev_def)
  from i exA_t1_bounds have j: "wip_integral (duration exA) 0 0 [exA_e1ev, exA_e2ev] \<le> 1 / 2"
    by simp
  from exA_y4_bounds have b: "14 \<le> exA_y4 * 2 * duration exA" by (simp add: exA_fields)
  from j b have n: "exA_y4 * 2 * duration exA
       \<noteq> wip_integral (duration exA) 0 0 [exA_e1ev, exA_e2ev]" by simp
  from exA_run_steps exA_single w j a b n show ?thesis by blast
qed


section \<open>Invariants of a run\<close>

subsection \<open>The clock and the busy times\<close>

lemma exponential_nonneg:
  assumes "0 \<le> r" and "0 \<le> m"
  shows "0 \<le> fst (exponential r m)" and "0 \<le> snd (exponential r m)"
proof -
  from rnd_next_unit [OF assms(1)] have u: "0 \<le> fst (rnd_next r)" "fst (rnd_next r) < 1"
    by simp_all
  from neg_ln_lower [OF u] u(1) have "0 \<le> - ln (1 - fst (rnd_next r))" by simp
  with assms(2) show "0 \<le> fst (exponential r m)"
    by (simp add: exponential_def split_beta mult_nonpos_nonneg)
  from rnd_next_state [OF assms(1)] show "0 \<le> snd (exponential r m)"
    by (simp add: exponential_def split_beta)
qed

lemma baseMean_pos: "0 < baseMean stage ty"
  by (simp add: baseMean_def Let_def split: option.split ProductType.split Stage.split)

lemma getProcessTime_nonneg:
  assumes "0 \<le> r"
  shows "0 \<le> fst (getProcessTime stage ty r)" and "0 \<le> snd (getProcessTime stage ty r)"
  using exponential_nonneg [OF assms, of "baseMean stage ty"] baseMean_pos [of stage ty]
  by (simp_all add: getProcessTime_def)

lemma choice_state: "0 \<le> r \<Longrightarrow> 0 \<le> snd (choice r items)"
  using rnd_next_state [of r] by (simp add: choice_def split_beta Let_def)

lemma sorted_schedule [simp]: "sorted (map time (schedule ty t j q))"
  by (simp add: schedule_def)

lemma set_upd_job:
  assumes "b \<in> set (upd_job j f js)"
  shows "b \<in> set js \<or> (j < length js \<and> b = f (js ! j))"
  using assms unfolding upd_job_def
  by (cases "j < length js") (auto simp: list_update_beyond dest: set_update_subset_insert [THEN subsetD])

lemma started_by_upd [simp]:
  "started_by t (b\<lparr>mouldingEndTime := v\<rparr>) = started_by t b"
  "started_by t (b\<lparr>inspectionEndTime := v\<rparr>) = started_by t b"
  "started_by t (b\<lparr>packagingEndTime := v\<rparr>) = started_by t b"
  "started_by t (b\<lparr>finished := w\<rparr>) = started_by t b"
  by (simp_all add: started_by_def)

lemma started_by_start:
  "started_by t b \<Longrightarrow> started_by t (b\<lparr>mouldingStartTime := Some t\<rparr>)"
  "started_by t b \<Longrightarrow> started_by t (b\<lparr>inspectionStartTime := Some t\<rparr>)"
  "started_by t b \<Longrightarrow> started_by t (b\<lparr>packagingStartTime := Some t\<rparr>)"
  by (simp_all add: started_by_def)

lemma started_by_mono: "started_by t b \<Longrightarrow> t \<le> t' \<Longrightarrow> started_by t' b"
  by (auto simp: started_by_def split: option.splits)

lemma clock_ok_start:
  assumes "clock_ok s"
  shows "clock_ok (start_moulding j s)" "clock_ok (start_inspection j s)"
    "clock_ok (start_packaging j s)"
  using assms getProcessTime_nonneg [of "rng s"]
  by (auto simp: clock_ok_def block_eqs started_by_start dest!: set_upd_job)

lemma clock_ok_dispatch:
  assumes "clock_ok s"
  shows "clock_ok (dispatch_moulding j s)" "clock_ok (dispatch_inspection j s)"
    "clock_ok (dispatch_packaging j s)"
  using assms clock_ok_start [OF assms, of j]
  by (auto simp: dispatch_moulding_def dispatch_inspection_def dispatch_packaging_def clock_ok_def)

lemma clock_ok_queue_fields:
  "clock_ok (s\<lparr>mouldingQueue := q\<rparr>) = clock_ok s"
  "clock_ok (s\<lparr>inspectionQueue := q\<rparr>) = clock_ok s"
  "clock_ok (s\<lparr>packagingQueue := q\<rparr>) = clock_ok s"
  by (simp_all add: clock_ok_def)

lemma clock_ok_pull:
  assumes "clock_ok s"
  shows "clock_ok (pull_moulding s)" "clock_ok (pull_inspection s)" "clock_ok (pull_packaging s)"
  using assms
  by (simp_all add: pull_moulding_def pull_inspection_def pull_packaging_def clock_ok_start
      clock_ok_queue_fields split: list.split)

lemma service_time_nonneg:
  assumes "case start of None \<Rightarrow> True | Some t0 \<Rightarrow> t0 \<le> now"
  shows "0 \<le> service_time start now"
  using assms by (auto simp: service_time_def split: option.splits)

lemma clock_ok_release:
  assumes "clock_ok s" and "j < length (jobs s)"
  shows "clock_ok (release_moulding j s)" "clock_ok (release_inspection j s)"
    "clock_ok (release_packaging j s)"
proof -
  from assms have sb: "started_by (currentTime s) (jobs s ! j)" by (simp add: clock_ok_def)
  then have "0 \<le> service_time (mouldingStartTime (jobs s ! j)) (currentTime s)"
    "0 \<le> service_time (inspectionStartTime (jobs s ! j)) (currentTime s)"
    "0 \<le> service_time (packagingStartTime (jobs s ! j)) (currentTime s)"
    by (simp_all add: started_by_def service_time_nonneg)
  with assms(1) show "clock_ok (release_moulding j s)" "clock_ok (release_inspection j s)"
    "clock_ok (release_packaging j s)"
    by (auto simp: clock_ok_def block_eqs dest!: set_upd_job)
qed

lemma clock_ok_create_job: "clock_ok s \<Longrightarrow> clock_ok (create_job s)"
  using choice_state [of "rng s"]
  by (auto simp: clock_ok_def create_job_eq started_by_def)

lemma clock_ok_next_arrival:
  assumes "clock_ok s" and "0 \<le> arrivalIntervalMean c"
  shows "clock_ok (schedule_next_arrival c s)"
  using assms exponential_nonneg [of "rng s" "arrivalIntervalMean c"]
  by (auto simp: clock_ok_def schedule_next_arrival_eq)

lemma clock_ok_advance:
  assumes "clock_ok s" and "queue s = ev # rest"
  shows "clock_ok (advance_clock ev (s\<lparr>queue := rest\<rparr>))"
  using assms
  by (auto simp: clock_ok_def advance_clock_def intro: started_by_mono)

lemma clock_ok_handlers:
  "clock_ok s \<Longrightarrow> 0 \<le> arrivalIntervalMean c \<Longrightarrow> clock_ok (on_arrival c s)"
  "clock_ok s \<Longrightarrow> j < length (jobs s) \<Longrightarrow> clock_ok (on_moulding_finish j s)"
  "clock_ok s \<Longrightarrow> j < length (jobs s) \<Longrightarrow> clock_ok (on_inspection_finish j s)"
  "clock_ok s \<Longrightarrow> j < length (jobs s) \<Longrightarrow> clock_ok (on_packaging_finish j s)"
  by (simp_all add: handler_defs clock_ok_dispatch clock_ok_pull clock_ok_release
      clock_ok_create_job clock_ok_next_arrival)

lemma process_event_clock_ok:
  assumes "clock_ok s" and "refs_ok s" and "queue s = ev # rest"
    and "0 \<le> arrivalIntervalMean c"
    and "process_event c ev (s\<lparr>queue := rest\<rparr>) = Inr s'"
  shows "clock_ok s'"
proof -
  let ?s1 = "advance_clock ev (s\<lparr>queue := rest\<rparr>)"
  have c1: "clock_ok ?s1" by (rule clock_ok_advance [OF assms(1,3)])
  have l: "length (jobs ?s1) = length (jobs s)" by (simp add: advance_clock_def)
  from refs_ok_tail(2) [OF assms(2,3)]
  have j: "\<And>n. job ev = Some n \<Longrightarrow> n < length (jobs ?s1)" by (simp add: l)
  from assms(5) show ?thesis
    by (cases rule: process_event_cases) (simp_all add: clock_ok_handlers c1 j assms(4))
qed

lemma init_clock_ok:
  assumes "0 \<le> seed c" and "0 \<le> arrivalIntervalMean c"
  shows "clock_ok (init_state c)"
  using exponential_nonneg [OF double_of_nonneg [OF assms(1)] assms(2)]
  by (simp add: clock_ok_def init_state_fields)

lemma run_steps_ok:
  assumes "run_steps c s evs s'" and "clock_ok s" and "refs_ok s"
    and "0 \<le> arrivalIntervalMean c"
  shows "clock_ok s' \<and> refs_ok s'"
  using assms(1,2,3)
proof (induction rule: run_steps.induct)
  case (steps_nil s)
  then show ?case by simp
next
  case (steps_cons s ev rest s' evs s'')
  from process_event_clock_ok [OF steps_cons.prems steps_cons.hyps(1) assms(4) steps_cons.hyps(3)]
  have c: "clock_ok s'" .
  from process_event_refs_ok [OF steps_cons.prems(2) steps_cons.hyps(1), of c] steps_cons.hyps(3)
  have "refs_ok s'" by simp
  with c show ?case by (rule steps_cons.IH)
qed

subsection \<open>Positive timestamps\<close>

lemma nth_upd_job: "upd_job i f js ! j = (if j = i \<and> i < length js then f (js ! i) else js ! j)"
  by (cases "i < length js") (auto simp: upd_job_def list_update_beyond)

lemma moulded_upd [simp]:
  "moulded (b\<lparr>mouldingStartTime := v\<rparr>) = moulded b"
  "moulded (b\<lparr>inspectionStartTime := v\<rparr>) = moulded b"
  "moulded (b\<lparr>packagingStartTime := v\<rparr>) = moulded b"
  "moulded (b\<lparr>inspectionEndTime := v\<rparr>) = moulded b"
  "moulded (b\<lparr>packagingEndTime := v\<rparr>) = moulded b"
  "moulded (b\<lparr>finished := w\<rparr>) = moulded b"
  "moulded (b\<lparr>mouldingEndTime := Some t\<rparr>)"
  by (simp_all add: moulded_def)

lemma moulded_upd_job:
  assumes "moulded (js ! j)" and "\<And>b. moulded b \<Longrightarrow> moulded (f b)"
  shows "moulded (upd_job i f js ! j)"
  using assms by (auto simp: nth_upd_job)

lemma stamps_pos_upd [simp]:
  "stamps_pos (b\<lparr>mouldingStartTime := v\<rparr>) = stamps_pos b"
  "stamps_pos (b\<lparr>packagingStartTime := v\<rparr>) = stamps_pos b"
  "stamps_pos (b\<lparr>inspectionEndTime := v\<rparr>) = stamps_pos b"
  "stamps_pos (b\<lparr>packagingEndTime := v\<rparr>) = stamps_pos b"
  "stamps_pos (b\<lparr>finished := w\<rparr>) = stamps_pos b"
  by (auto simp: stamps_pos_def split: option.splits)

lemma stamps_pos_set:
  "stamps_pos b \<Longrightarrow> 0 < t \<Longrightarrow> stamps_pos (b\<lparr>mouldingEndTime := Some t\<rparr>)"
  "stamps_pos b \<Longrightarrow> 0 < t \<Longrightarrow> moulded b \<Longrightarrow>
     stamps_pos (b\<lparr>inspectionStartTime := Some t\<rparr>)"
  by (auto simp: stamps_pos_def split: option.splits)

lemma pos_ok_start:
  assumes "pos_ok s" and "0 < currentTime s" and "0 \<le> rng s"
  shows "pos_ok (start_moulding j s)"
    and "moulded (jobs s ! j) \<Longrightarrow> pos_ok (start_inspection j s)"
    and "pos_ok (start_packaging j s)"
  using assms getProcessTime_nonneg(1) [OF assms(3), of Moulding "productType (jobs s ! j)"]
    getProcessTime_nonneg(1) [OF assms(3), of Inspection "productType (jobs s ! j)"]
    getProcessTime_nonneg(1) [OF assms(3), of Packaging "productType (jobs s ! j)"]
  by (auto simp: pos_ok_def block_eqs stamps_pos_set intro: moulded_upd_job
      dest!: set_upd_job)

lemma pos_ok_fields:
  "pos_ok (s\<lparr>mouldingQueue := q\<rparr>) = pos_ok s"
  "pos_ok (s\<lparr>packagingQueue := q\<rparr>) = pos_ok s"
  by (simp_all add: pos_ok_def)

lemma pos_ok_dispatch:
  assumes "pos_ok s" and "0 < currentTime s" and "0 \<le> rng s"
  shows "pos_ok (dispatch_moulding j s)"
    and "moulded (jobs s ! j) \<Longrightarrow> pos_ok (dispatch_inspection j s)"
    and "pos_ok (dispatch_packaging j s)"
proof -
  show "pos_ok (dispatch_moulding j s)"
    using assms by (simp add: dispatch_moulding_def pos_ok_start pos_ok_fields)
  show "pos_ok (dispatch_packaging j s)"
    using assms by (simp add: dispatch_packaging_def pos_ok_start pos_ok_fields)
  show "pos_ok (dispatch_inspection j s)" if "moulded (jobs s ! j)"
  proof (cases "0 < inspectionFree s")
    case True
    with pos_ok_start(2) [OF assms that] show ?thesis by (simp add: dispatch_inspection_def)
  next
    case False
    with assms(1) that show ?thesis by (auto simp: dispatch_inspection_def pos_ok_def)
  qed
qed

lemma pos_ok_pull:
  assumes "pos_ok s" and "0 < currentTime s" and "0 \<le> rng s"
  shows "pos_ok (pull_moulding s)" and "pos_ok (pull_inspection s)" and "pos_ok (pull_packaging s)"
proof -
  show "pos_ok (pull_moulding s)"
    using assms by (simp add: pull_moulding_def pos_ok_start pos_ok_fields split: list.split)
  show "pos_ok (pull_packaging s)"
    using assms by (simp add: pull_packaging_def pos_ok_start pos_ok_fields split: list.split)
  show "pos_ok (pull_inspection s)"
  proof (cases "inspectionQueue s")
    case Nil
    with assms(1) show ?thesis by (simp add: pull_inspection_def)
  next
    case (Cons n rest)
    let ?s = "s\<lparr>inspectionQueue := rest\<rparr>"
    from assms(1) Cons have p: "pos_ok ?s" and m: "moulded (jobs ?s ! n)"
      by (auto simp: pos_ok_def)
    from assms(2,3) have "0 < currentTime ?s" "0 \<le> rng ?s" by simp_all
    from pos_ok_start(2) [OF p this m] Cons show ?thesis by (simp add: pull_inspection_def)
  qed
qed

lemma pos_ok_release:
  assumes "pos_ok s" and "0 < currentTime s"
  shows "pos_ok (release_moulding j s)" and "pos_ok (release_inspection j s)"
    and "pos_ok (release_packaging j s)"
  using assms
  by (auto simp: pos_ok_def block_eqs stamps_pos_set intro: moulded_upd_job dest!: set_upd_job)

lemma pos_ok_create_job:
  assumes "pos_ok s" and "refs_ok s"
  shows "pos_ok (create_job s)"
  using assms
  by (auto simp: pos_ok_def refs_ok_def create_job_eq stamps_pos_def nth_append)

lemma pos_ok_next_arrival:
  assumes "pos_ok s" and "0 < currentTime s" and "0 \<le> rng s" and "0 \<le> arrivalIntervalMean c"
  shows "pos_ok (schedule_next_arrival c s)"
  using assms exponential_nonneg(1) [OF assms(3,4)]
  by (auto simp: pos_ok_def schedule_next_arrival_eq)

lemma block_time [simp]:
  "currentTime (start_moulding j s) = currentTime s"
  "currentTime (start_inspection j s) = currentTime s"
  "currentTime (start_packaging j s) = currentTime s"
  "currentTime (dispatch_moulding j s) = currentTime s"
  "currentTime (dispatch_inspection j s) = currentTime s"
  "currentTime (dispatch_packaging j s) = currentTime s"
  "currentTime (pull_moulding s) = currentTime s"
  "currentTime (pull_inspection s) = currentTime s"
  "currentTime (pull_packaging s) = currentTime s"
  "currentTime (release_moulding j s) = currentTime s"
  "currentTime (release_inspection j s) = currentTime s"
  "currentTime (release_packaging j s) = currentTime s"
  "currentTime (create_job s) = currentTime s"
  "currentTime (schedule_next_arrival c s) = currentTime s"
  by (simp_all add: block_eqs split: list.split)

lemma clock_ok_rng: "clock_ok s \<Longrightarrow> 0 \<le> rng s"
  by (simp add: clock_ok_def)

lemma pos_ok_on_arrival:
  assumes "pos_ok s" and "clock_ok s" and "refs_ok s" and "0 < currentTime s"
    and "0 \<le> arrivalIntervalMean c"
  shows "pos_ok (on_arrival c s)"
proof -
  let ?a = "create_job s"
  let ?b = "schedule_next_arrival c ?a"
  have pa: "pos_ok ?a" by (rule pos_ok_create_job [OF assms(1,3)])
  have ca: "clock_ok ?a" by (rule clock_ok_create_job [OF assms(2)])
  have ta: "0 < currentTime ?a" using assms(4) by simp
  have pb: "pos_ok ?b" by (rule pos_ok_next_arrival [OF pa ta clock_ok_rng [OF ca] assms(5)])
  have cb: "clock_ok ?b" by (rule clock_ok_next_arrival [OF ca assms(5)])
  have tb: "0 < currentTime ?b" using assms(4) by simp
  show ?thesis unfolding on_arrival_def
    by (rule pos_ok_dispatch(1) [OF pb tb clock_ok_rng [OF cb]])
qed

lemma moulded_start:
  "moulded (jobs s ! j) \<Longrightarrow> moulded (jobs (start_moulding n s) ! j)"
  by (auto simp: block_eqs intro: moulded_upd_job)

lemma moulded_pull: "moulded (jobs s ! j) \<Longrightarrow> moulded (jobs (pull_moulding s) ! j)"
  by (auto simp: pull_moulding_def block_eqs intro: moulded_upd_job split: list.split)

lemma moulded_release: "j < length (jobs s) \<Longrightarrow> moulded (jobs (release_moulding j s) ! j)"
  by (simp add: block_eqs nth_upd_job)

lemma pos_ok_on_moulding_finish:
  assumes "pos_ok s" and "clock_ok s" and "0 < currentTime s" and "j < length (jobs s)"
  shows "pos_ok (on_moulding_finish j s)"
proof -
  let ?a = "release_moulding j s"
  let ?b = "pull_moulding ?a"
  have pa: "pos_ok ?a" by (rule pos_ok_release(1) [OF assms(1,3)])
  have ca: "clock_ok ?a" by (rule clock_ok_release(1) [OF assms(2,4)])
  have ta: "0 < currentTime ?a" using assms(3) by simp
  have pb: "pos_ok ?b" by (rule pos_ok_pull(1) [OF pa ta clock_ok_rng [OF ca]])
  have cb: "clock_ok ?b" by (rule clock_ok_pull(1) [OF ca])
  have tb: "0 < currentTime ?b" using assms(3) by simp
  have m: "moulded (jobs ?b ! j)" by (rule moulded_pull [OF moulded_release [OF assms(4)]])
  show ?thesis unfolding on_moulding_finish_def
    by (rule pos_ok_dispatch(2) [OF pb tb clock_ok_rng [OF cb] m])
qed

lemma pos_ok_on_inspection_finish:
  assumes "pos_ok s" and "clock_ok s" and "0 < currentTime s" and "j < length (jobs s)"
  shows "pos_ok (on_inspection_finish j s)"
proof -
  let ?a = "release_inspection j s"
  let ?b = "pull_inspection ?a"
  have pa: "pos_ok ?a" by (rule pos_ok_release(2) [OF assms(1,3)])
  have ca: "clock_ok ?a" by (rule clock_ok_release(2) [OF assms(2,4)])
  have ta: "0 < currentTime ?a" using assms(3) by simp
  have pb: "pos_ok ?b" by (rule pos_ok_pull(2) [OF pa ta clock_ok_rng [OF ca]])
  have cb: "clock_ok ?b" by (rule clock_ok_pull(2) [OF ca])
  have tb: "0 < currentTime ?b" using assms(3) by simp
  show ?thesis unfolding on_inspection_finish_def
    by (rule pos_ok_dispatch(3) [OF pb tb clock_ok_rng [OF cb]])
qed

lemma pos_ok_on_packaging_finish:
  assumes "pos_ok s" and "clock_ok s" and "0 < currentTime s" and "j < length (jobs s)"
  shows "pos_ok (on_packaging_finish j s)"
proof -
  let ?a = "release_packaging j s"
  have pa: "pos_ok ?a" by (rule pos_ok_release(3) [OF assms(1,3)])
  have ca: "clock_ok ?a" by (rule clock_ok_release(3) [OF assms(2,4)])
  have ta: "0 < currentTime ?a" using assms(3) by simp
  show ?thesis unfolding on_packaging_finish_def
    by (rule pos_ok_pull(3) [OF pa ta clock_ok_rng [OF ca]])
qed

lemma process_event_pos_ok:
  assumes "pos_ok s" and "clock_ok s" and "refs_ok s" and "queue s = ev # rest"
    and "0 \<le> arrivalIntervalMean c"
    and "process_event c ev (s\<lparr>queue := rest\<rparr>) = Inr s'"
  shows "pos_ok s'"
proof -
  let ?s1 = "advance_clock ev (s\<lparr>queue := rest\<rparr>)"
  have c1: "clock_ok ?s1" by (rule clock_ok_advance [OF assms(2,4)])
  have r1: "refs_ok ?s1" using refs_ok_tail(1) [OF assms(3,4)] by (simp add: refs_ok_blocks)
  have p1: "pos_ok ?s1" using assms(1,4) by (simp add: pos_ok_def advance_clock_def)
  have t1: "0 < currentTime ?s1" using assms(1,4) by (simp add: pos_ok_def advance_clock_def)
  have l: "length (jobs ?s1) = length (jobs s)" by (simp add: advance_clock_def)
  from refs_ok_tail(2) [OF assms(3,4)]
  have j: "\<And>n. job ev = Some n \<Longrightarrow> n < length (jobs ?s1)" by (simp add: l)
  from assms(6) show ?thesis
    by (cases rule: process_event_cases)
      (simp_all add: pos_ok_on_arrival pos_ok_on_moulding_finish pos_ok_on_inspection_finish
        pos_ok_on_packaging_finish c1 r1 p1 t1 j assms(5))
qed

lemma exponential_pos:
  assumes "0 \<le> r" and "snd (rnd_next r) \<noteq> 0" and "0 < m"
  shows "0 < fst (exponential r m)"
proof -
  from rnd_next_state [OF assms(1)] assms(2) have "0 < snd (rnd_next r)" by simp
  then have p: "0 < fst (rnd_next r)" by (simp add: rnd_next_value)
  from rnd_next_unit [OF assms(1)] have u: "0 \<le> fst (rnd_next r)" "fst (rnd_next r) < 1"
    by simp_all
  from neg_ln_lower [OF u] p have "0 < - ln (1 - fst (rnd_next r))" by simp
  from this assms(3) have "0 < - ln (1 - fst (rnd_next r)) * m" by (rule mult_pos_pos)
  then show ?thesis by (simp add: exponential_def split_beta)
qed

lemma exponential_zero:
  assumes "0 \<le> r" and "0 < m" and "\<not> 0 < fst (exponential r m)"
  shows "snd (exponential r m) = 0"
proof -
  from exponential_pos [OF assms(1) _ assms(2)] assms(3) have "snd (rnd_next r) = 0" by blast
  then show ?thesis by (simp add: exponential_def split_beta)
qed

lemma draws_after_zero:
  "snd (choice 0 items) = 49297"
  "snd (rnd_next 49297) = 165494"
  "snd (exponential 49297 m) = 165494"
  "snd (rnd_next 165494) = 127551"
  by (simp_all add: choice_def exponential_def split_beta rnd_next_def js_rem_def Let_def)

lemma first_arrival_at_zero:
  assumes "0 < arrivalIntervalMean c" and "rng s = 0"
    and "queue s = []" and "jobs s = []" and "inspectionQueue s = []" and "currentTime s = 0"
  shows "pos_ok (on_arrival c s)"
proof -
  have x: "0 < fst (exponential 49297 (arrivalIntervalMean c))"
    by (rule exponential_pos) (simp_all add: draws_after_zero assms(1))
  have y: "0 < fst (getProcessTime Moulding ty 165494)" for ty
    unfolding getProcessTime_def
    by (rule exponential_pos) (simp_all add: draws_after_zero baseMean_pos)
  show ?thesis
    using assms x y
    by (auto simp: on_arrival_def dispatch_moulding_def block_eqs pos_ok_def draws_after_zero
        stamps_pos_def upd_job_def)
qed

lemma init_first_step:
  assumes "0 \<le> seed c" and "0 < arrivalIntervalMean c"
    and "queue (init_state c) = ev # rest"
    and "process_event c ev ((init_state c)\<lparr>queue := rest\<rparr>) = Inr s1"
  shows "pos_ok s1"
proof (cases "0 < time ev")
  case True
  with assms(3) have "pos_ok (init_state c)" by (simp add: pos_ok_def init_state_fields)
  from process_event_pos_ok [OF this init_clock_ok init_refs_ok assms(3) _ assms(4)] assms(1,2)
  show ?thesis by simp
next
  case False
  from assms(3) have ev: "ev = \<lparr>time = fst (exponential (double_of (seed c)) (arrivalIntervalMean c)),
      type = ARRIVAL, job = None\<rparr>" and rest: "rest = []"
    by (simp_all add: init_state_fields)
  from False ev have nz: "\<not> 0 < fst (exponential (double_of (seed c)) (arrivalIntervalMean c))" by simp
  have "rng (init_state c) = snd (exponential (double_of (seed c)) (arrivalIntervalMean c))"
    by (simp add: init_state_fields)
  also have "\<dots> = 0" by (rule exponential_zero [OF double_of_nonneg [OF assms(1)] assms(2) nz])
  finally have r0: "rng (init_state c) = 0" .
  from False exponential_nonneg(1) [OF double_of_nonneg [OF assms(1)], of "arrivalIntervalMean c"]
    assms(2) ev
  have t0: "time ev = 0" by simp
  let ?s0 = "advance_clock ev ((init_state c)\<lparr>queue := rest\<rparr>)"
  from assms(4) ev have s1: "s1 = on_arrival c ?s0" by (simp add: process_event_def)
  have "pos_ok (on_arrival c ?s0)"
    by (rule first_arrival_at_zero [OF assms(2)])
      (simp_all add: advance_clock_def r0 rest t0 init_state_fields(2,7))
  with s1 show ?thesis by simp
qed

lemma run_steps_all_ok:
  assumes "run_steps c s evs s'" and "pos_ok s" and "clock_ok s" and "refs_ok s"
    and "0 \<le> arrivalIntervalMean c"
  shows "pos_ok s'"
  using assms(1,2,3,4)
proof (induction rule: run_steps.induct)
  case (steps_nil s)
  then show ?case by simp
next
  case (steps_cons s ev rest s' evs s'')
  from process_event_pos_ok [OF steps_cons.prems steps_cons.hyps(1) assms(5) steps_cons.hyps(3)]
  have p: "pos_ok s'" .
  from process_event_clock_ok [OF steps_cons.prems(2,3) steps_cons.hyps(1) assms(5)
      steps_cons.hyps(3)]
  have c: "clock_ok s'" .
  from process_event_refs_ok [OF steps_cons.prems(3) steps_cons.hyps(1), of c] steps_cons.hyps(3)
  have "refs_ok s'" by simp
  with p c show ?case by (rule steps_cons.IH)
qed

lemma run_stamps_pos:
  assumes "0 \<le> seed c" and "0 < arrivalIntervalMean c"
    and "run_steps c (init_state c) evs sf"
  shows "\<forall>b \<in> set (jobs sf). stamps_pos b"
  using assms(3)
proof (cases rule: run_steps.cases)
  case steps_nil
  then show ?thesis by (simp add: init_state_fields)
next
  case (steps_cons ev rest s1 evs')
  from assms(2) have m: "0 \<le> arrivalIntervalMean c" by simp
  from init_first_step [OF assms(1,2) steps_cons(2,4)] have p: "pos_ok s1" .
  from process_event_clock_ok [OF init_clock_ok [OF assms(1) m] init_refs_ok steps_cons(2) m
      steps_cons(4)]
  have c: "clock_ok s1" .
  from process_event_refs_ok [OF init_refs_ok steps_cons(2), of c] steps_cons(4)
  have r: "refs_ok s1" by simp
  from run_steps_all_ok [OF steps_cons(5) p c r m] show ?thesis by (simp add: pos_ok_def)
qed

lemma degradation_stamped:
  assumes "stamps_pos b"
  shows "degradation c b =
    (if reached_inspection b
     then max 0 (inspection_wait b - degradationThreshold c) * degradationCostPerMinute c
     else 0)"
  using assms
  by (auto simp: degradation_def wait_i_def stamps_pos_def moulded_def reached_inspection_def
      inspection_wait_def split: option.splits)

lemma total_degradation_stamped:
  assumes "\<forall>b \<in> set js. stamps_pos b"
  shows "sum_list (map (degradation c) js) =
    sum_list (map (\<lambda>b. max 0 (inspection_wait b - degradationThreshold c)
                          * degradationCostPerMinute c) (filter reached_inspection js))"
  using assms by (induction js) (simp_all add: degradation_stamped)

subsection \<open>Runs that never return\<close>

lemma rng_blocks:
  assumes "0 \<le> rng s"
  shows "0 \<le> rng (start_moulding j s)" "0 \<le> rng (start_inspection j s)"
    "0 \<le> rng (start_packaging j s)"
    "0 \<le> rng (dispatch_moulding j s)" "0 \<le> rng (dispatch_inspection j s)"
    "0 \<le> rng (dispatch_packaging j s)"
    "0 \<le> rng (pull_moulding s)" "0 \<le> rng (pull_inspection s)" "0 \<le> rng (pull_packaging s)"
    "0 \<le> rng (release_moulding j s)" "0 \<le> rng (release_inspection j s)"
    "0 \<le> rng (release_packaging j s)"
    "0 \<le> rng (create_job s)" "0 \<le> rng (schedule_next_arrival c s)"
  using assms getProcessTime_nonneg(2) [OF assms] choice_state [OF assms]
    rnd_next_state [OF assms]
  by (simp_all add: block_eqs exponential_def split_beta split: list.split)

lemma rng_handlers:
  assumes "0 \<le> rng s"
  shows "0 \<le> rng (on_arrival c s)" "0 \<le> rng (on_moulding_finish j s)"
    "0 \<le> rng (on_inspection_finish j s)" "0 \<le> rng (on_packaging_finish j s)"
  using assms by (simp_all add: handler_defs rng_blocks)

lemma sorted_blocks:
  assumes "sorted (map time (queue s))"
  shows "sorted (map time (queue (start_moulding j s)))"
    "sorted (map time (queue (start_inspection j s)))"
    "sorted (map time (queue (start_packaging j s)))"
    "sorted (map time (queue (dispatch_moulding j s)))"
    "sorted (map time (queue (dispatch_inspection j s)))"
    "sorted (map time (queue (dispatch_packaging j s)))"
    "sorted (map time (queue (pull_moulding s)))"
    "sorted (map time (queue (pull_inspection s)))"
    "sorted (map time (queue (pull_packaging s)))"
    "sorted (map time (queue (release_moulding j s)))"
    "sorted (map time (queue (release_inspection j s)))"
    "sorted (map time (queue (release_packaging j s)))"
    "sorted (map time (queue (create_job s)))"
    "sorted (map time (queue (schedule_next_arrival c s)))"
  using assms by (simp_all add: block_eqs split: list.split)

lemma sorted_handlers:
  assumes "sorted (map time (queue s))"
  shows "sorted (map time (queue (on_arrival c s)))"
    "sorted (map time (queue (on_moulding_finish j s)))"
    "sorted (map time (queue (on_inspection_finish j s)))"
    "sorted (map time (queue (on_packaging_finish j s)))"
  using assms by (simp_all add: handler_defs sorted_blocks)

lemma queue_grows_blocks:
  "set (queue s) \<subseteq> set (queue (start_moulding j s))"
  "set (queue s) \<subseteq> set (queue (start_inspection j s))"
  "set (queue s) \<subseteq> set (queue (start_packaging j s))"
  "set (queue s) \<subseteq> set (queue (dispatch_moulding j s))"
  "set (queue s) \<subseteq> set (queue (dispatch_inspection j s))"
  "set (queue s) \<subseteq> set (queue (dispatch_packaging j s))"
  "set (queue s) \<subseteq> set (queue (pull_moulding s))"
  "set (queue s) \<subseteq> set (queue (pull_inspection s))"
  "set (queue s) \<subseteq> set (queue (pull_packaging s))"
  "set (queue (release_moulding j s)) = set (queue s)"
  "set (queue (release_inspection j s)) = set (queue s)"
  "set (queue (release_packaging j s)) = set (queue s)"
  "set (queue (create_job s)) = set (queue s)"
  "set (queue s) \<subseteq> set (queue (schedule_next_arrival c s))"
  by (auto simp: block_eqs split: list.split)

lemma queue_grows_handlers:
  "set (queue s) \<subseteq> set (queue (on_arrival c s))"
  "set (queue s) \<subseteq> set (queue (on_moulding_finish j s))"
  "set (queue s) \<subseteq> set (queue (on_inspection_finish j s))"
  "set (queue s) \<subseteq> set (queue (on_packaging_finish j s))"
proof -
  show "set (queue s) \<subseteq> set (queue (on_arrival c s))"
    unfolding on_arrival_def
    using queue_grows_blocks(4) [of "schedule_next_arrival c (create_job s)" "length (jobs s)"]
      queue_grows_blocks(14) [of "create_job s" c] queue_grows_blocks(13) [of s]
    by blast
  show "set (queue s) \<subseteq> set (queue (on_moulding_finish j s))"
    unfolding on_moulding_finish_def
    using queue_grows_blocks(5) [of "pull_moulding (release_moulding j s)" j]
      queue_grows_blocks(7) [of "release_moulding j s"] queue_grows_blocks(10) [of j s]
    by blast
  show "set (queue s) \<subseteq> set (queue (on_inspection_finish j s))"
    unfolding on_inspection_finish_def
    using queue_grows_blocks(6) [of "pull_inspection (release_inspection j s)" j]
      queue_grows_blocks(8) [of "release_inspection j s"] queue_grows_blocks(11) [of j s]
    by blast
  show "set (queue s) \<subseteq> set (queue (on_packaging_finish j s))"
    unfolding on_packaging_finish_def
    using queue_grows_blocks(9) [of "release_packaging j s"] queue_grows_blocks(12) [of j s]
    by blast
qed

lemma next_arrival_backlog:
  assumes "0 \<le> rng s" and "arrivalIntervalMean c \<le> 0" and "0 < duration c"
    and "currentTime s \<le> 0"
  shows "\<exists>e \<in> set (queue (schedule_next_arrival c s)). type e = ARRIVAL \<and> time e \<le> 0"
proof -
  from rnd_next_unit [OF assms(1)] have u: "0 \<le> fst (rnd_next (rng s))" "fst (rnd_next (rng s)) < 1"
    by simp_all
  from neg_ln_lower [OF u] u(1) have "0 \<le> - ln (1 - fst (rnd_next (rng s)))" by simp
  with assms(2) have "- ln (1 - fst (rnd_next (rng s))) * arrivalIntervalMean c \<le> 0"
    by (rule mult_nonneg_nonpos [rotated])
  then have x: "fst (exponential (rng s) (arrivalIntervalMean c)) \<le> 0"
    by (simp add: exponential_def split_beta)
  with assms(3,4) show ?thesis by (simp add: schedule_next_arrival_eq)
qed

lemma arrival_backlog:
  assumes "0 \<le> rng s" and "arrivalIntervalMean c \<le> 0" and "0 < duration c"
    and "currentTime s \<le> 0"
  shows "\<exists>e \<in> set (queue (on_arrival c s)). type e = ARRIVAL \<and> time e \<le> 0"
proof -
  have "0 \<le> rng (create_job s)" by (rule rng_blocks(13) [OF assms(1)])
  from next_arrival_backlog [OF this assms(2,3)] assms(4)
  obtain e where e: "e \<in> set (queue (schedule_next_arrival c (create_job s)))"
    "type e = ARRIVAL" "time e \<le> 0" by auto
  from e(1) queue_grows_blocks(4) [of "schedule_next_arrival c (create_job s)" "length (jobs s)"]
  have "e \<in> set (queue (on_arrival c s))" unfolding on_arrival_def by blast
  with e(2,3) show ?thesis by blast
qed

lemma process_event_backlog:
  assumes "backlog s" and "queue s = ev # rest"
    and "arrivalIntervalMean c \<le> 0" and "0 < duration c"
    and "process_event c ev (s\<lparr>queue := rest\<rparr>) = Inr s'"
  shows "backlog s'"
proof -
  let ?s1 = "advance_clock ev (s\<lparr>queue := rest\<rparr>)"
  from assms(1,2) obtain a where a: "a \<in> set (ev # rest)" "type a = ARRIVAL" "time a \<le> 0"
    by (auto simp: backlog_def)
  from assms(1,2) have srt: "sorted (map time (ev # rest))" by (simp add: backlog_def)
  with a(1,3) have t: "time ev \<le> 0" by auto
  have r1: "0 \<le> rng ?s1" using assms(1) by (simp add: backlog_def advance_clock_def)
  have q1: "sorted (map time (queue ?s1))" using srt by (simp add: advance_clock_def)
  have t1: "currentTime ?s1 \<le> 0" using t by (simp add: advance_clock_def)
  have keep: "type ev \<noteq> ARRIVAL \<Longrightarrow> a \<in> set (queue ?s1)"
    using a(1,2) by (auto simp: advance_clock_def)
  from assms(5) show ?thesis
  proof (cases rule: process_event_cases)
    case arrival
    with r1 q1 t1 arrival_backlog [OF r1 assms(3,4) t1] show ?thesis
      by (simp add: backlog_def rng_handlers sorted_handlers handlers_clock)
  next
    case (moulding j)
    with keep queue_grows_handlers(2) [of ?s1 j] have "a \<in> set (queue s')" by auto
    with moulding r1 q1 t1 a(2,3) show ?thesis
      by (auto simp: backlog_def rng_handlers sorted_handlers handlers_clock)
  next
    case (inspection j)
    with keep queue_grows_handlers(3) [of ?s1 j] have "a \<in> set (queue s')" by auto
    with inspection r1 q1 t1 a(2,3) show ?thesis
      by (auto simp: backlog_def rng_handlers sorted_handlers handlers_clock)
  next
    case (packaging j)
    with keep queue_grows_handlers(4) [of ?s1 j] have "a \<in> set (queue s')" by auto
    with packaging r1 q1 t1 a(2,3) show ?thesis
      by (auto simp: backlog_def rng_handlers sorted_handlers handlers_clock)
  qed
qed

lemma loop_backlog_never_returns:
  assumes l: "loop c s = Some y" and m: "arrivalIntervalMean c \<le> 0" and d: "0 < duration c"
  shows "\<not> (backlog s \<and> refs_ok s)"
proof -
  let ?P = "\<lambda>d s (y :: error + SimState). d = c \<longrightarrow> \<not> (backlog s \<and> refs_ok s)"
  have "?P c s y"
  proof (rule loop.raw_induct [where P = ?P, OF _ l])
    fix lp d s y
    assume ih: "\<And>d' s' y'. lp d' s' = Some y' \<Longrightarrow> ?P d' s' y'"
    assume body: "(case queue s of [] \<Rightarrow> Some (Inr s)
          | ev # rest \<Rightarrow>
              if currentTime s < duration d
              then case process_event d ev (s\<lparr>queue := rest\<rparr>) of Inl e \<Rightarrow> Some (Inl e)
                   | Inr s' \<Rightarrow> lp d s'
              else Some (Inr s)) = Some (y :: error + SimState)"
    show "?P d s y"
    proof (intro impI notI)
      assume dc: "d = c" and b: "backlog s \<and> refs_ok s"
      then obtain ev rest where q: "queue s = ev # rest"
        by (cases "queue s") (auto simp: backlog_def)
      from b d have g: "currentTime s < duration c" by (simp add: backlog_def)
      from process_event_refs_ok [OF _ q, of c] b obtain s' where
        p: "process_event c ev (s\<lparr>queue := rest\<rparr>) = Inr s'" and r': "refs_ok s'" by blast
      from process_event_backlog [OF _ q m d p] b have b': "backlog s'" by simp
      from body q g p dc have "lp c s' = Some y" by simp
      from ih [OF this] b' r' show False by simp
    qed
  qed
  then show ?thesis by simp
qed

lemma init_backlog:
  assumes "0 \<le> seed c" and "arrivalIntervalMean c \<le> 0"
  shows "backlog (init_state c)"
proof -
  note d0 = double_of_nonneg [OF assms(1)]
  from rnd_next_unit [OF d0] have u: "0 \<le> fst (rnd_next (double_of (seed c)))"
    "fst (rnd_next (double_of (seed c))) < 1"
    by simp_all
  from neg_ln_lower [OF u] u(1) have "0 \<le> - ln (1 - fst (rnd_next (double_of (seed c))))" by simp
  with assms(2) have "- ln (1 - fst (rnd_next (double_of (seed c)))) * arrivalIntervalMean c \<le> 0"
    by (rule mult_nonneg_nonpos [rotated])
  then have x: "fst (exponential (double_of (seed c)) (arrivalIntervalMean c)) \<le> 0"
    by (simp add: exponential_def split_beta)
  from rnd_next_state [OF d0]
  have "0 \<le> snd (exponential (double_of (seed c)) (arrivalIntervalMean c))"
    by (simp add: exponential_def split_beta)
  with x show ?thesis by (simp add: backlog_def init_state_fields)
qed

lemma loop_never_returns:
  assumes "0 \<le> seed c" and "arrivalIntervalMean c \<le> 0" and "0 < duration c"
  shows "loop c (init_state c) = None"
proof (cases "loop c (init_state c)")
  case None
  then show ?thesis .
next
  case (Some y)
  from loop_backlog_never_returns [OF Some assms(2,3)] init_backlog [OF assms(1,2)] init_refs_ok
  show ?thesis by simp
qed

subsection \<open>Servers in use\<close>

lemma sum_list_insort_key:
  fixes g :: "'a \<Rightarrow> real"
  shows "sum_list (map g (insort_key f x xs)) = g x + sum_list (map g xs)"
  by (induction xs) simp_all

lemma sum_list_sort_key:
  fixes g :: "'a \<Rightarrow> real"
  shows "sum_list (map g (sort_key f xs)) = sum_list (map g xs)"
  by (induction xs) (simp_all add: sum_list_insort_key)

lemma sum_filter_schedule:
  fixes g :: "SimEvent \<Rightarrow> real"
  shows "sum_list (map g (filter P (schedule ty t j q)))
     = sum_list (map g (filter P q)) + (if P \<lparr>time = t, type = ty, job = j\<rparr>
          then g \<lparr>time = t, type = ty, job = j\<rparr> else 0)"
  by (simp add: schedule_def filter_sort sum_list_sort_key)

lemma elapsed_advance:
  assumes "t \<le> t'"
  shows "elapsed t' x \<le> elapsed t x + (t' - t)"
  using assms by (cases x) (simp_all add: elapsed_def)

lemma elapsed_mono: "t \<le> t' \<Longrightarrow> 0 \<le> elapsed t x \<Longrightarrow> 0 \<le> elapsed t' x"
  by (cases x) (simp_all add: elapsed_def)

lemma sum_elapsed_advance:
  assumes "t \<le> t'"
  shows "sum_list (map (\<lambda>e. elapsed t' (h e)) xs)
       \<le> sum_list (map (\<lambda>e. elapsed t (h e)) xs) + real (length xs) * (t' - t)"
proof (induction xs)
  case Nil
  show ?case by simp
next
  case (Cons x xs)
  from elapsed_advance [OF assms, of "h x"] Cons show ?case
    by (simp add: algebra_simps)
qed

lemma service_time_le_elapsed:
  assumes "0 \<le> elapsed now x"
  shows "service_time x now \<le> elapsed now x"
  using assms by (cases x) (simp_all add: service_time_def elapsed_def)

lemma started_by_elapsed:
  assumes "started_by t b"
  shows "0 \<le> elapsed t (mouldingStartTime b)" "0 \<le> elapsed t (inspectionStartTime b)"
    "0 \<le> elapsed t (packagingStartTime b)"
  using assms by (auto simp: started_by_def elapsed_def split: option.splits)

lemma past_starts_all:
  assumes "clock_ok s" and "refs_ok s"
  shows "past_starts mouldingStartTime s" "past_starts inspectionStartTime s"
    "past_starts packagingStartTime s"
proof -
  have "0 \<le> elapsed (currentTime s) (job_start mouldingStartTime (jobs s) e)
      \<and> 0 \<le> elapsed (currentTime s) (job_start inspectionStartTime (jobs s) e)
      \<and> 0 \<le> elapsed (currentTime s) (job_start packagingStartTime (jobs s) e)"
    if e: "e \<in> set (queue s)" for e
  proof (cases "job e")
    case None
    then show ?thesis by (simp add: job_start_def elapsed_def)
  next
    case (Some i)
    with assms(2) e have "i < length (jobs s)" by (auto simp: refs_ok_def split: option.splits)
    then have "jobs s ! i \<in> set (jobs s)" by simp
    with assms(1) have "started_by (currentTime s) (jobs s ! i)" by (simp add: clock_ok_def)
    from started_by_elapsed [OF this] Some show ?thesis by (simp add: job_start_def)
  qed
  then show "past_starts mouldingStartTime s" "past_starts inspectionStartTime s"
    "past_starts packagingStartTime s"
    by (simp_all add: past_starts_def)
qed

lemma stage_load_nonneg:
  assumes "past_starts start s"
  shows "0 \<le> stage_load ty start s"
  unfolding stage_load_def
  by (rule sum_list_nonneg) (use assms in \<open>auto simp: past_starts_def\<close>)

text \<open>The clock advances to the next event, which is of another stage.\<close>

lemma stage_ok_advance_other:
  assumes ok: "stage_ok ty start m free busy s" and q: "queue s = ev # rest"
    and ty: "type ev \<noteq> ty" and t: "currentTime s \<le> time ev"
  shows "stage_ok ty start m free busy (advance_clock ev (s\<lparr>queue := rest\<rparr>))"
proof -
  let ?xs = "filter (\<lambda>e. type e = ty) rest"
  let ?h = "job_start start (jobs s)"
  from q ty have f: "filter (\<lambda>e. type e = ty) (queue s) = ?xs" by simp
  from ok f have free: "0 \<le> free" and n: "int (length ?xs) + free = m"
    and b: "busy + sum_list (map (\<lambda>e. elapsed (currentTime s) (?h e)) ?xs)
       \<le> real_of_int m * currentTime s"
    by (simp_all add: stage_ok_def stage_load_def)
  from free n have "real (length ?xs) \<le> real_of_int m" by linarith
  with t have "real (length ?xs) * (time ev - currentTime s)
      \<le> real_of_int m * (time ev - currentTime s)"
    by (simp add: mult_right_mono)
  with sum_elapsed_advance [OF t, of ?h ?xs] b
  have "busy + sum_list (map (\<lambda>e. elapsed (time ev) (?h e)) ?xs) \<le> real_of_int m * time ev"
    by (simp add: algebra_simps)
  with free n show ?thesis
    by (simp add: stage_ok_def stage_load_def advance_clock_def)
qed

text \<open>The clock advances to the next event, which is the finish of job \<open>j\<close> at this stage.\<close>

lemma stage_ok_advance_own:
  assumes ok: "stage_ok ty start m free busy s" and q: "queue s = ev # rest"
    and ty: "type ev = ty" and j: "job ev = Some j" and t: "currentTime s \<le> time ev"
    and p: "0 \<le> elapsed (currentTime s) (start (jobs s ! j))"
  shows "stage_ok ty start m (free + 1) (busy + service_time (start (jobs s ! j)) (time ev))
           (advance_clock ev (s\<lparr>queue := rest\<rparr>))"
proof -
  let ?xs = "filter (\<lambda>e. type e = ty) rest"
  let ?h = "job_start start (jobs s)"
  let ?x = "start (jobs s ! j)"
  from q ty have f: "filter (\<lambda>e. type e = ty) (queue s) = ev # ?xs" by simp
  from j have hj: "?h ev = ?x" by (simp add: job_start_def)
  from ok f hj have free: "0 \<le> free" and n: "int (length ?xs) + 1 + free = m"
    and b: "busy + (elapsed (currentTime s) ?x
         + sum_list (map (\<lambda>e. elapsed (currentTime s) (?h e)) ?xs))
       \<le> real_of_int m * currentTime s"
    by (simp_all add: stage_ok_def stage_load_def)
  from free n have "real (length ?xs) + 1 \<le> real_of_int m" by linarith
  with t have m: "(real (length ?xs) + 1) * (time ev - currentTime s)
      \<le> real_of_int m * (time ev - currentTime s)"
    by (simp add: mult_right_mono)
  from elapsed_mono [OF t p] have "service_time ?x (time ev) \<le> elapsed (time ev) ?x"
    by (rule service_time_le_elapsed)
  with elapsed_advance [OF t, of ?x] have s: "service_time ?x (time ev)
      \<le> elapsed (currentTime s) ?x + (time ev - currentTime s)" by simp
  from sum_elapsed_advance [OF t, of ?h ?xs] s b m
  have "busy + service_time ?x (time ev) + sum_list (map (\<lambda>e. elapsed (time ev) (?h e)) ?xs)
      \<le> real_of_int m * time ev"
    by (simp add: algebra_simps)
  with free n show ?thesis
    by (simp add: stage_ok_def stage_load_def advance_clock_def)
qed

text \<open>Job \<open>n\<close> goes into service at this stage.\<close>

lemma elapsed_start_now:
  assumes "0 \<le> elapsed now (job_start start js e)" and "start (f (js ! n)) = Some now"
    and "n < length js"
  shows "elapsed now (job_start start (upd_job n f js) e) \<le> elapsed now (job_start start js e)"
proof (cases "job e")
  case None
  then show ?thesis by (simp add: job_start_def)
next
  case (Some i)
  show ?thesis
  proof (cases "i = n")
    case True
    with Some assms show ?thesis by (simp add: job_start_def nth_upd_job elapsed_def)
  next
    case False
    with Some show ?thesis by (simp add: job_start_def nth_upd_job)
  qed
qed

lemma stage_ok_start:
  assumes ok: "stage_ok ty start m free busy s" and fr: "0 < free"
    and p: "past_starts start s" and n: "n < length (jobs s)"
    and f: "start (f (jobs s ! n)) = Some (currentTime s)"
    and q': "queue s' = schedule ty t (Some n) (queue s)"
    and j': "jobs s' = upd_job n f (jobs s)" and t': "currentTime s' = currentTime s"
  shows "stage_ok ty start m (free - 1) busy s'"
proof -
  let ?now = "currentTime s"
  let ?xs = "filter (\<lambda>e. type e = ty) (queue s)"
  have new: "elapsed ?now (job_start start (upd_job n f (jobs s)) \<lparr>time = t, type = ty, job = Some n\<rparr>) = 0"
    using n f by (simp add: job_start_def nth_upd_job elapsed_def)
  have "sum_list (map (\<lambda>e. elapsed ?now (job_start start (upd_job n f (jobs s)) e)) ?xs)
      \<le> sum_list (map (\<lambda>e. elapsed ?now (job_start start (jobs s) e)) ?xs)"
  proof (rule sum_list_mono)
    fix e assume "e \<in> set ?xs"
    with p have "0 \<le> elapsed ?now (job_start start (jobs s) e)" by (simp add: past_starts_def)
    from elapsed_start_now [where start = start and f = f and js = "jobs s", OF this f n]
    show "elapsed ?now (job_start start (upd_job n f (jobs s)) e)
        \<le> elapsed ?now (job_start start (jobs s) e)" .
  qed
  with new have "stage_load ty start s' \<le> stage_load ty start s"
    by (simp add: stage_load_def q' j' t' sum_filter_schedule)
  with ok fr show ?thesis
    by (simp add: stage_ok_def q' t' length_filter_schedule)
qed

text \<open>A step that leaves the events and the start times of this stage as they are.\<close>

lemma stage_ok_same:
  assumes ok: "stage_ok ty start m free busy s"
    and l: "length (filter (\<lambda>e. type e = ty) (queue s')) = length (filter (\<lambda>e. type e = ty) (queue s))"
    and s: "stage_load ty start s' = stage_load ty start s"
    and t: "currentTime s' = currentTime s"
  shows "stage_ok ty start m free busy s'"
  using ok by (simp add: stage_ok_def l s t)

lemma job_start_upd:
  assumes "\<And>b. start (f b) = start b"
  shows "job_start start (upd_job i f js) = job_start start js"
  by (rule ext) (simp add: job_start_def nth_upd_job assms split: option.split)

lemmas stage_simps = stage_ok_def stage_load_def sum_filter_schedule length_filter_schedule
  job_start_upd

lemma moulding_unaffected:
  "moulding_ok c (start_inspection j s) = moulding_ok c s"
  "moulding_ok c (start_packaging j s) = moulding_ok c s"
  "moulding_ok c (dispatch_inspection j s) = moulding_ok c s"
  "moulding_ok c (dispatch_packaging j s) = moulding_ok c s"
  "moulding_ok c (pull_inspection s) = moulding_ok c s"
  "moulding_ok c (pull_packaging s) = moulding_ok c s"
  "moulding_ok c (release_inspection j s) = moulding_ok c s"
  "moulding_ok c (release_packaging j s) = moulding_ok c s"
  "moulding_ok c (schedule_next_arrival c' s) = moulding_ok c s"
  by (simp_all add: moulding_ok_def stage_simps block_eqs split: list.split)

lemma inspection_unaffected:
  "inspection_ok c (start_moulding j s) = inspection_ok c s"
  "inspection_ok c (start_packaging j s) = inspection_ok c s"
  "inspection_ok c (dispatch_moulding j s) = inspection_ok c s"
  "inspection_ok c (dispatch_packaging j s) = inspection_ok c s"
  "inspection_ok c (pull_moulding s) = inspection_ok c s"
  "inspection_ok c (pull_packaging s) = inspection_ok c s"
  "inspection_ok c (release_moulding j s) = inspection_ok c s"
  "inspection_ok c (release_packaging j s) = inspection_ok c s"
  "inspection_ok c (schedule_next_arrival c' s) = inspection_ok c s"
  by (simp_all add: inspection_ok_def stage_simps block_eqs split: list.split)

lemma packaging_unaffected:
  "packaging_ok c (start_moulding j s) = packaging_ok c s"
  "packaging_ok c (start_inspection j s) = packaging_ok c s"
  "packaging_ok c (dispatch_moulding j s) = packaging_ok c s"
  "packaging_ok c (dispatch_inspection j s) = packaging_ok c s"
  "packaging_ok c (pull_moulding s) = packaging_ok c s"
  "packaging_ok c (pull_inspection s) = packaging_ok c s"
  "packaging_ok c (release_moulding j s) = packaging_ok c s"
  "packaging_ok c (release_inspection j s) = packaging_ok c s"
  "packaging_ok c (schedule_next_arrival c' s) = packaging_ok c s"
  by (simp_all add: packaging_ok_def stage_simps block_eqs split: list.split)

lemma job_start_append:
  assumes "refs_ok s" and "e \<in> set (queue s)"
  shows "job_start start (jobs s @ [b]) e = job_start start (jobs s) e"
  using assms by (auto simp: job_start_def refs_ok_def nth_append split: option.splits)

lemma stage_load_create_job:
  assumes "refs_ok s"
  shows "stage_load ty start (create_job s) = stage_load ty start s"
proof -
  let ?xs = "filter (\<lambda>e. type e = ty) (queue s)"
  let ?l = "map (\<lambda>e. elapsed (currentTime s) (job_start start (jobs (create_job s)) e)) ?xs"
  let ?r = "map (\<lambda>e. elapsed (currentTime s) (job_start start (jobs s) e)) ?xs"
  have "?l = ?r"
    by (rule map_cong) (simp_all add: create_job_eq job_start_append [OF assms])
  then have "sum_list ?l = sum_list ?r" by (rule arg_cong)
  then show ?thesis by (simp add: stage_load_def create_job_eq)
qed

lemma stages_create_job:
  assumes "refs_ok s"
  shows "moulding_ok c (create_job s) = moulding_ok c s"
    "inspection_ok c (create_job s) = inspection_ok c s"
    "packaging_ok c (create_job s) = packaging_ok c s"
  using stage_load_create_job [OF assms]
  by (simp_all add: moulding_ok_def inspection_ok_def packaging_ok_def stage_ok_def)
    (simp_all add: create_job_eq)

lemma stage_queue_fields [simp]:
  "moulding_ok c (s\<lparr>mouldingQueue := q\<rparr>) = moulding_ok c s"
  "moulding_ok c (s\<lparr>inspectionQueue := q\<rparr>) = moulding_ok c s"
  "moulding_ok c (s\<lparr>packagingQueue := q\<rparr>) = moulding_ok c s"
  "inspection_ok c (s\<lparr>mouldingQueue := q\<rparr>) = inspection_ok c s"
  "inspection_ok c (s\<lparr>inspectionQueue := q\<rparr>) = inspection_ok c s"
  "inspection_ok c (s\<lparr>packagingQueue := q\<rparr>) = inspection_ok c s"
  "packaging_ok c (s\<lparr>mouldingQueue := q\<rparr>) = packaging_ok c s"
  "packaging_ok c (s\<lparr>inspectionQueue := q\<rparr>) = packaging_ok c s"
  "packaging_ok c (s\<lparr>packagingQueue := q\<rparr>) = packaging_ok c s"
  by (simp_all add: moulding_ok_def inspection_ok_def packaging_ok_def stage_ok_def stage_load_def)

lemma past_starts_queue_fields [simp]:
  "past_starts start (s\<lparr>mouldingQueue := q\<rparr>) = past_starts start s"
  "past_starts start (s\<lparr>inspectionQueue := q\<rparr>) = past_starts start s"
  "past_starts start (s\<lparr>packagingQueue := q\<rparr>) = past_starts start s"
  by (simp_all add: past_starts_def)

subsubsection \<open>A job goes into service\<close>

lemma moulding_ok_start:
  assumes "moulding_ok c s" and "0 < mouldingFree s" and "past_starts mouldingStartTime s"
    and "n < length (jobs s)"
  shows "moulding_ok c (start_moulding n s)"
proof -
  have "stage_ok MOULDING_FINISH mouldingStartTime (mouldingMachines c) (mouldingFree s - 1)
      (totalMouldingBusyTime s) (start_moulding n s)"
    by (rule stage_ok_start [where f = "\<lambda>b. b\<lparr>mouldingStartTime := Some (currentTime s)\<rparr>"
          and s = s, OF assms(1) [unfolded moulding_ok_def] assms(2,3,4)])
      (simp_all add: start_moulding_eq)
  then show ?thesis by (simp add: moulding_ok_def start_moulding_eq stage_ok_def stage_load_def)
qed

lemma inspection_ok_start:
  assumes "inspection_ok c s" and "0 < inspectionFree s" and "past_starts inspectionStartTime s"
    and "n < length (jobs s)"
  shows "inspection_ok c (start_inspection n s)"
proof -
  have "stage_ok INSPECTION_FINISH inspectionStartTime (inspectionStations c) (inspectionFree s - 1)
      (totalInspectionBusyTime s) (start_inspection n s)"
    by (rule stage_ok_start [where f = "\<lambda>b. b\<lparr>inspectionStartTime := Some (currentTime s)\<rparr>"
          and s = s, OF assms(1) [unfolded inspection_ok_def] assms(2,3,4)])
      (simp_all add: start_inspection_eq)
  then show ?thesis by (simp add: inspection_ok_def start_inspection_eq stage_ok_def stage_load_def)
qed

lemma packaging_ok_start:
  assumes "packaging_ok c s" and "0 < packagingFree s" and "past_starts packagingStartTime s"
    and "n < length (jobs s)"
  shows "packaging_ok c (start_packaging n s)"
proof -
  have "stage_ok PACKAGING_FINISH packagingStartTime (packagingMachines c) (packagingFree s - 1)
      (totalPackagingBusyTime s) (start_packaging n s)"
    by (rule stage_ok_start [where f = "\<lambda>b. b\<lparr>packagingStartTime := Some (currentTime s)\<rparr>"
          and s = s, OF assms(1) [unfolded packaging_ok_def] assms(2,3,4)])
      (simp_all add: start_packaging_eq)
  then show ?thesis by (simp add: packaging_ok_def start_packaging_eq stage_ok_def stage_load_def)
qed

lemma stage_ok_dispatch:
  "moulding_ok c s \<Longrightarrow> past_starts mouldingStartTime s \<Longrightarrow> n < length (jobs s) \<Longrightarrow>
     moulding_ok c (dispatch_moulding n s)"
  "inspection_ok c s \<Longrightarrow> past_starts inspectionStartTime s \<Longrightarrow> n < length (jobs s) \<Longrightarrow>
     inspection_ok c (dispatch_inspection n s)"
  "packaging_ok c s \<Longrightarrow> past_starts packagingStartTime s \<Longrightarrow> n < length (jobs s) \<Longrightarrow>
     packaging_ok c (dispatch_packaging n s)"
  by (simp_all add: dispatch_moulding_def dispatch_inspection_def dispatch_packaging_def
      moulding_ok_start inspection_ok_start packaging_ok_start)

lemma stage_ok_pull:
  "moulding_ok c s \<Longrightarrow> 0 < mouldingFree s \<Longrightarrow> past_starts mouldingStartTime s \<Longrightarrow>
     refs_ok s \<Longrightarrow> moulding_ok c (pull_moulding s)"
  "inspection_ok c s \<Longrightarrow> 0 < inspectionFree s \<Longrightarrow> past_starts inspectionStartTime s \<Longrightarrow>
     refs_ok s \<Longrightarrow> inspection_ok c (pull_inspection s)"
  "packaging_ok c s \<Longrightarrow> 0 < packagingFree s \<Longrightarrow> past_starts packagingStartTime s \<Longrightarrow>
     refs_ok s \<Longrightarrow> packaging_ok c (pull_packaging s)"
  by (auto simp: pull_moulding_def pull_inspection_def pull_packaging_def refs_ok_def
      intro!: moulding_ok_start inspection_ok_start packaging_ok_start split: list.split)

subsubsection \<open>A job leaves a stage\<close>

lemma head_facts:
  assumes "clock_ok s" and "refs_ok s" and "queue s = ev # rest" and "job ev = Some j"
  shows "currentTime s \<le> time ev"
    and "0 \<le> elapsed (currentTime s) (mouldingStartTime (jobs s ! j))"
    and "0 \<le> elapsed (currentTime s) (inspectionStartTime (jobs s ! j))"
    and "0 \<le> elapsed (currentTime s) (packagingStartTime (jobs s ! j))"
proof -
  from assms(1,3) show "currentTime s \<le> time ev" by (simp add: clock_ok_def)
  from past_starts_all [OF assms(1,2)] assms(3,4)
  show "0 \<le> elapsed (currentTime s) (mouldingStartTime (jobs s ! j))"
    "0 \<le> elapsed (currentTime s) (inspectionStartTime (jobs s ! j))"
    "0 \<le> elapsed (currentTime s) (packagingStartTime (jobs s ! j))"
    by (simp_all add: past_starts_def job_start_def)
qed

lemma moulding_ok_finish:
  assumes "moulding_ok c s" and "clock_ok s" and "refs_ok s" and "queue s = ev # rest"
    and "type ev = MOULDING_FINISH" and "job ev = Some j"
  shows "moulding_ok c (release_moulding j (advance_clock ev (s\<lparr>queue := rest\<rparr>)))"
    and "0 < mouldingFree (release_moulding j (advance_clock ev (s\<lparr>queue := rest\<rparr>)))"
proof -
  note h = head_facts [OF assms(2,3,4,6)]
  from stage_ok_advance_own [OF assms(1) [unfolded moulding_ok_def] assms(4,5,6) h(1,2)]
  have a: "stage_ok MOULDING_FINISH mouldingStartTime (mouldingMachines c) (mouldingFree s + 1)
      (totalMouldingBusyTime s + service_time (mouldingStartTime (jobs s ! j)) (time ev))
      (advance_clock ev (s\<lparr>queue := rest\<rparr>))" .
  then show "moulding_ok c (release_moulding j (advance_clock ev (s\<lparr>queue := rest\<rparr>)))"
    by (simp add: moulding_ok_def release_moulding_eq advance_clock_def stage_simps)
  from assms(1) show "0 < mouldingFree (release_moulding j (advance_clock ev (s\<lparr>queue := rest\<rparr>)))"
    by (simp add: moulding_ok_def release_moulding_eq advance_clock_def stage_ok_def)
qed

lemma inspection_ok_finish:
  assumes "inspection_ok c s" and "clock_ok s" and "refs_ok s" and "queue s = ev # rest"
    and "type ev = INSPECTION_FINISH" and "job ev = Some j"
  shows "inspection_ok c (release_inspection j (advance_clock ev (s\<lparr>queue := rest\<rparr>)))"
    and "0 < inspectionFree (release_inspection j (advance_clock ev (s\<lparr>queue := rest\<rparr>)))"
proof -
  note h = head_facts [OF assms(2,3,4,6)]
  from stage_ok_advance_own [OF assms(1) [unfolded inspection_ok_def] assms(4,5,6) h(1,3)]
  have a: "stage_ok INSPECTION_FINISH inspectionStartTime (inspectionStations c)
      (inspectionFree s + 1)
      (totalInspectionBusyTime s + service_time (inspectionStartTime (jobs s ! j)) (time ev))
      (advance_clock ev (s\<lparr>queue := rest\<rparr>))" .
  then show "inspection_ok c (release_inspection j (advance_clock ev (s\<lparr>queue := rest\<rparr>)))"
    by (simp add: inspection_ok_def release_inspection_eq advance_clock_def stage_simps)
  from assms(1) show "0 < inspectionFree (release_inspection j (advance_clock ev (s\<lparr>queue := rest\<rparr>)))"
    by (simp add: inspection_ok_def release_inspection_eq advance_clock_def stage_ok_def)
qed

lemma packaging_ok_finish:
  assumes "packaging_ok c s" and "clock_ok s" and "refs_ok s" and "queue s = ev # rest"
    and "type ev = PACKAGING_FINISH" and "job ev = Some j"
  shows "packaging_ok c (release_packaging j (advance_clock ev (s\<lparr>queue := rest\<rparr>)))"
    and "0 < packagingFree (release_packaging j (advance_clock ev (s\<lparr>queue := rest\<rparr>)))"
proof -
  note h = head_facts [OF assms(2,3,4,6)]
  from stage_ok_advance_own [OF assms(1) [unfolded packaging_ok_def] assms(4,5,6) h(1,4)]
  have a: "stage_ok PACKAGING_FINISH packagingStartTime (packagingMachines c)
      (packagingFree s + 1)
      (totalPackagingBusyTime s + service_time (packagingStartTime (jobs s ! j)) (time ev))
      (advance_clock ev (s\<lparr>queue := rest\<rparr>))" .
  then show "packaging_ok c (release_packaging j (advance_clock ev (s\<lparr>queue := rest\<rparr>)))"
    by (simp add: packaging_ok_def release_packaging_eq advance_clock_def stage_simps)
  from assms(1) show "0 < packagingFree (release_packaging j (advance_clock ev (s\<lparr>queue := rest\<rparr>)))"
    by (simp add: packaging_ok_def release_packaging_eq advance_clock_def stage_ok_def)
qed

lemma stage_ok_other:
  assumes "clock_ok s" and "queue s = ev # rest"
  shows "moulding_ok c s \<Longrightarrow> type ev \<noteq> MOULDING_FINISH \<Longrightarrow>
      moulding_ok c (advance_clock ev (s\<lparr>queue := rest\<rparr>))"
    and "inspection_ok c s \<Longrightarrow> type ev \<noteq> INSPECTION_FINISH \<Longrightarrow>
      inspection_ok c (advance_clock ev (s\<lparr>queue := rest\<rparr>))"
    and "packaging_ok c s \<Longrightarrow> type ev \<noteq> PACKAGING_FINISH \<Longrightarrow>
      packaging_ok c (advance_clock ev (s\<lparr>queue := rest\<rparr>))"
proof -
  from assms have t: "currentTime s \<le> time ev" by (simp add: clock_ok_def)
  show "moulding_ok c s \<Longrightarrow> type ev \<noteq> MOULDING_FINISH \<Longrightarrow>
      moulding_ok c (advance_clock ev (s\<lparr>queue := rest\<rparr>))"
    using stage_ok_advance_other [OF _ assms(2) _ t, of MOULDING_FINISH mouldingStartTime
        "mouldingMachines c" "mouldingFree s" "totalMouldingBusyTime s"]
    by (simp add: moulding_ok_def advance_clock_def stage_ok_def stage_load_def)
  show "inspection_ok c s \<Longrightarrow> type ev \<noteq> INSPECTION_FINISH \<Longrightarrow>
      inspection_ok c (advance_clock ev (s\<lparr>queue := rest\<rparr>))"
    using stage_ok_advance_other [OF _ assms(2) _ t, of INSPECTION_FINISH inspectionStartTime
        "inspectionStations c" "inspectionFree s" "totalInspectionBusyTime s"]
    by (simp add: inspection_ok_def advance_clock_def stage_ok_def stage_load_def)
  show "packaging_ok c s \<Longrightarrow> type ev \<noteq> PACKAGING_FINISH \<Longrightarrow>
      packaging_ok c (advance_clock ev (s\<lparr>queue := rest\<rparr>))"
    using stage_ok_advance_other [OF _ assms(2) _ t, of PACKAGING_FINISH packagingStartTime
        "packagingMachines c" "packagingFree s" "totalPackagingBusyTime s"]
    by (simp add: packaging_ok_def advance_clock_def stage_ok_def stage_load_def)
qed

lemma stages_on_arrival:
  assumes "stages_ok c s" and "clock_ok s" and "refs_ok s" and "0 \<le> arrivalIntervalMean c"
  shows "stages_ok c (on_arrival c s)"
proof -
  let ?a = "create_job s"
  let ?b = "schedule_next_arrival c ?a"
  have ca: "clock_ok ?a" by (rule clock_ok_create_job [OF assms(2)])
  have ra: "refs_ok ?a" by (rule refs_ok_create_job [OF assms(3)])
  have cb: "clock_ok ?b" by (rule clock_ok_next_arrival [OF ca assms(4)])
  have rb: "refs_ok ?b" by (rule refs_ok_blocks(13) [OF ra])
  have n: "length (jobs s) < length (jobs ?b)" by (simp add: jobs_length_blocks)
  from assms(1) have sb: "moulding_ok c ?b" "inspection_ok c ?b" "packaging_ok c ?b"
    by (simp_all add: stages_ok_def moulding_unaffected inspection_unaffected
        packaging_unaffected stages_create_job [OF assms(3)])
  from stage_ok_dispatch(1) [OF sb(1) past_starts_all(1) [OF cb rb] n] sb(2,3)
  show ?thesis
    by (simp add: stages_ok_def on_arrival_def inspection_unaffected packaging_unaffected)
qed

lemma stages_on_moulding_finish:
  assumes "stages_ok c s" and "clock_ok s" and "refs_ok s" and "queue s = ev # rest"
    and "type ev = MOULDING_FINISH" and "job ev = Some j"
  shows "stages_ok c (on_moulding_finish j (advance_clock ev (s\<lparr>queue := rest\<rparr>)))"
proof -
  let ?s1 = "advance_clock ev (s\<lparr>queue := rest\<rparr>)"
  let ?a = "release_moulding j ?s1"
  let ?b = "pull_moulding ?a"
  from refs_ok_tail [OF assms(3,4)] assms(6) have j: "j < length (jobs ?s1)"
    and r1: "refs_ok ?s1" by (simp_all add: refs_ok_blocks jobs_length_blocks)
  have c1: "clock_ok ?s1" by (rule clock_ok_advance [OF assms(2,4)])
  have ca: "clock_ok ?a" by (rule clock_ok_release(1) [OF c1 j])
  have ra: "refs_ok ?a" by (rule refs_ok_blocks(10) [OF r1])
  have cb: "clock_ok ?b" by (rule clock_ok_pull(1) [OF ca])
  have rb: "refs_ok ?b" by (rule refs_ok_blocks(7) [OF ra])
  have jb: "j < length (jobs ?b)" using j by (simp add: jobs_length_blocks)
  from assms(1) have m0: "moulding_ok c s" and i0: "inspection_ok c s" and p0: "packaging_ok c s"
    by (simp_all add: stages_ok_def)
  note ma = moulding_ok_finish [OF m0 assms(2,3,4,5,6)]
  have mb: "moulding_ok c ?b"
    by (rule stage_ok_pull(1) [OF ma past_starts_all(1) [OF ca ra] ra])
  from stage_ok_other(2) [OF assms(2,4) i0] assms(5) have ib: "inspection_ok c ?b"
    by (simp add: inspection_unaffected)
  from stage_ok_other(3) [OF assms(2,4) p0] assms(5) have pb: "packaging_ok c ?b"
    by (simp add: packaging_unaffected)
  from stage_ok_dispatch(2) [OF ib past_starts_all(2) [OF cb rb] jb] mb pb
  show ?thesis
    by (simp add: stages_ok_def on_moulding_finish_def moulding_unaffected packaging_unaffected)
qed

lemma stages_on_inspection_finish:
  assumes "stages_ok c s" and "clock_ok s" and "refs_ok s" and "queue s = ev # rest"
    and "type ev = INSPECTION_FINISH" and "job ev = Some j"
  shows "stages_ok c (on_inspection_finish j (advance_clock ev (s\<lparr>queue := rest\<rparr>)))"
proof -
  let ?s1 = "advance_clock ev (s\<lparr>queue := rest\<rparr>)"
  let ?a = "release_inspection j ?s1"
  let ?b = "pull_inspection ?a"
  from refs_ok_tail [OF assms(3,4)] assms(6) have j: "j < length (jobs ?s1)"
    and r1: "refs_ok ?s1" by (simp_all add: refs_ok_blocks jobs_length_blocks)
  have c1: "clock_ok ?s1" by (rule clock_ok_advance [OF assms(2,4)])
  have ca: "clock_ok ?a" by (rule clock_ok_release(2) [OF c1 j])
  have ra: "refs_ok ?a" by (rule refs_ok_blocks(11) [OF r1])
  have cb: "clock_ok ?b" by (rule clock_ok_pull(2) [OF ca])
  have rb: "refs_ok ?b" by (rule refs_ok_blocks(8) [OF ra])
  have jb: "j < length (jobs ?b)" using j by (simp add: jobs_length_blocks)
  from assms(1) have m0: "moulding_ok c s" and i0: "inspection_ok c s" and p0: "packaging_ok c s"
    by (simp_all add: stages_ok_def)
  note ia = inspection_ok_finish [OF i0 assms(2,3,4,5,6)]
  have ib: "inspection_ok c ?b"
    by (rule stage_ok_pull(2) [OF ia past_starts_all(2) [OF ca ra] ra])
  from stage_ok_other(1) [OF assms(2,4) m0] assms(5) have mb: "moulding_ok c ?b"
    by (simp add: moulding_unaffected)
  from stage_ok_other(3) [OF assms(2,4) p0] assms(5) have pb: "packaging_ok c ?b"
    by (simp add: packaging_unaffected)
  from stage_ok_dispatch(3) [OF pb past_starts_all(3) [OF cb rb] jb] mb ib
  show ?thesis
    by (simp add: stages_ok_def on_inspection_finish_def moulding_unaffected
        inspection_unaffected)
qed

lemma stages_on_packaging_finish:
  assumes "stages_ok c s" and "clock_ok s" and "refs_ok s" and "queue s = ev # rest"
    and "type ev = PACKAGING_FINISH" and "job ev = Some j"
  shows "stages_ok c (on_packaging_finish j (advance_clock ev (s\<lparr>queue := rest\<rparr>)))"
proof -
  let ?s1 = "advance_clock ev (s\<lparr>queue := rest\<rparr>)"
  let ?a = "release_packaging j ?s1"
  from refs_ok_tail [OF assms(3,4)] assms(6) have j: "j < length (jobs ?s1)"
    and r1: "refs_ok ?s1" by (simp_all add: refs_ok_blocks jobs_length_blocks)
  have c1: "clock_ok ?s1" by (rule clock_ok_advance [OF assms(2,4)])
  have ca: "clock_ok ?a" by (rule clock_ok_release(3) [OF c1 j])
  have ra: "refs_ok ?a" by (rule refs_ok_blocks(12) [OF r1])
  from assms(1) have m0: "moulding_ok c s" and i0: "inspection_ok c s" and p0: "packaging_ok c s"
    by (simp_all add: stages_ok_def)
  note pa = packaging_ok_finish [OF p0 assms(2,3,4,5,6)]
  have pb: "packaging_ok c (pull_packaging ?a)"
    by (rule stage_ok_pull(3) [OF pa past_starts_all(3) [OF ca ra] ra])
  from stage_ok_other(1) [OF assms(2,4) m0] assms(5) have mb: "moulding_ok c (pull_packaging ?a)"
    by (simp add: moulding_unaffected)
  from stage_ok_other(2) [OF assms(2,4) i0] assms(5) have ib: "inspection_ok c (pull_packaging ?a)"
    by (simp add: inspection_unaffected)
  from mb ib pb show ?thesis by (simp add: stages_ok_def on_packaging_finish_def)
qed

lemma process_event_stages:
  assumes "stages_ok c s" and "clock_ok s" and "refs_ok s" and "queue s = ev # rest"
    and "0 \<le> arrivalIntervalMean c"
    and "process_event c ev (s\<lparr>queue := rest\<rparr>) = Inr s'"
  shows "stages_ok c s'"
  using assms(6)
proof (cases rule: process_event_cases)
  case arrival
  let ?s1 = "advance_clock ev (s\<lparr>queue := rest\<rparr>)"
  have c1: "clock_ok ?s1" by (rule clock_ok_advance [OF assms(2,4)])
  from refs_ok_tail(1) [OF assms(3,4)] have r1: "refs_ok ?s1" by (simp add: refs_ok_blocks)
  from assms(1) arrival(1) stage_ok_other [OF assms(2,4), of c] have "stages_ok c ?s1"
    by (simp add: stages_ok_def)
  from stages_on_arrival [OF this c1 r1 assms(5)] arrival(2) show ?thesis by simp
next
  case (moulding j)
  with stages_on_moulding_finish [OF assms(1,2,3,4)] show ?thesis by simp
next
  case (inspection j)
  with stages_on_inspection_finish [OF assms(1,2,3,4)] show ?thesis by simp
next
  case (packaging j)
  with stages_on_packaging_finish [OF assms(1,2,3,4)] show ?thesis by simp
qed

lemma init_stages_ok:
  assumes "0 \<le> mouldingMachines c" and "0 \<le> inspectionStations c" and "0 \<le> packagingMachines c"
  shows "stages_ok c (init_state c)"
  using assms
  by (simp add: stages_ok_def moulding_ok_def inspection_ok_def packaging_ok_def stage_ok_def
      stage_load_def init_state_fields)

lemma run_steps_stages:
  assumes "run_steps c s evs s'" and "stages_ok c s" and "clock_ok s" and "refs_ok s"
    and "0 \<le> arrivalIntervalMean c"
  shows "stages_ok c s' \<and> clock_ok s' \<and> refs_ok s'"
  using assms(1,2,3,4)
proof (induction rule: run_steps.induct)
  case (steps_nil s)
  then show ?case by simp
next
  case (steps_cons s ev rest s' evs s'')
  from process_event_stages [OF steps_cons.prems steps_cons.hyps(1) assms(5) steps_cons.hyps(3)]
  have p: "stages_ok c s'" .
  from process_event_clock_ok [OF steps_cons.prems(2,3) steps_cons.hyps(1) assms(5)
      steps_cons.hyps(3)]
  have c: "clock_ok s'" .
  from process_event_refs_ok [OF steps_cons.prems(3) steps_cons.hyps(1), of c] steps_cons.hyps(3)
  have "refs_ok s'" by simp
  with p c show ?case by (rule steps_cons.IH)
qed

lemma busy_bounded:
  assumes "stages_ok c s" and "clock_ok s" and "refs_ok s"
  shows "totalMouldingBusyTime s \<le> real_of_int (mouldingMachines c) * currentTime s"
    and "totalInspectionBusyTime s \<le> real_of_int (inspectionStations c) * currentTime s"
    and "totalPackagingBusyTime s \<le> real_of_int (packagingMachines c) * currentTime s"
proof -
  note p = past_starts_all [OF assms(2,3)]
  from assms(1) stage_load_nonneg [OF p(1), of MOULDING_FINISH]
  show "totalMouldingBusyTime s \<le> real_of_int (mouldingMachines c) * currentTime s"
    by (simp add: stages_ok_def moulding_ok_def stage_ok_def)
  from assms(1) stage_load_nonneg [OF p(2), of INSPECTION_FINISH]
  show "totalInspectionBusyTime s \<le> real_of_int (inspectionStations c) * currentTime s"
    by (simp add: stages_ok_def inspection_ok_def stage_ok_def)
  from assms(1) stage_load_nonneg [OF p(3), of PACKAGING_FINISH]
  show "totalPackagingBusyTime s \<le> real_of_int (packagingMachines c) * currentTime s"
    by (simp add: stages_ok_def packaging_ok_def stage_ok_def)
qed


section \<open>Statistics of a completed run\<close>

lemma loop_zero_duration:
  assumes "loop c (init_state c) = Some (Inr sf)" and "\<not> 0 < duration c"
  shows "sf = init_state c"
proof -
  from loop_run_steps [OF assms(1)] obtain evs where "run_steps c (init_state c) evs sf" by blast
  from run_steps_zero_duration [OF this] assms(2) show ?thesis by (simp add: init_state_fields)
qed

lemma loop_returns_mean:
  assumes "0 \<le> seed c" and "0 < duration c" and "loop c (init_state c) = Some y"
  shows "0 < arrivalIntervalMean c"
proof (rule ccontr)
  assume "\<not> 0 < arrivalIntervalMean c"
  then have "arrivalIntervalMean c \<le> 0" by simp
  from loop_never_returns [OF assms(1) this assms(2)] assms(3) show False by simp
qed

text \<open>
  For a configuration with a non-negative seed and strictly positive duration and server
  counts, the utilization of each stage of a completed run is the busy time of the stage
  divided by \<open>duration * servers\<close>; it is not negative and it is at most the final clock
  divided by the duration: the busy time of a stage never exceeds \<open>servers * clock\<close>.
\<close>

lemma utilization_bounds:
  assumes "0 \<le> seed c" and "0 < duration c"
    and "0 < mouldingMachines c" and "0 < inspectionStations c" and "0 < packagingMachines c"
    and "loop c (init_state c) = Some (Inr sf)"
  shows "machineUtilization_moulding (run_stats c sf)
           = totalMouldingBusyTime sf / (duration c * real_of_int (mouldingMachines c))
       \<and> machineUtilization_inspection (run_stats c sf)
           = totalInspectionBusyTime sf / (duration c * real_of_int (inspectionStations c))
       \<and> machineUtilization_packaging (run_stats c sf)
           = totalPackagingBusyTime sf / (duration c * real_of_int (packagingMachines c))
       \<and> 0 \<le> machineUtilization_moulding (run_stats c sf)
       \<and> 0 \<le> machineUtilization_inspection (run_stats c sf)
       \<and> 0 \<le> machineUtilization_packaging (run_stats c sf)
       \<and> machineUtilization_moulding (run_stats c sf) \<le> currentTime sf / duration c
       \<and> machineUtilization_inspection (run_stats c sf) \<le> currentTime sf / duration c
       \<and> machineUtilization_packaging (run_stats c sf) \<le> currentTime sf / duration c"
proof -
  from loop_returns_mean [OF assms(1,2,6)] have m: "0 \<le> arrivalIntervalMean c" by simp
  from loop_run_steps [OF assms(6)] obtain evs where r: "run_steps c (init_state c) evs sf"
    by blast
  note c0 = init_clock_ok [OF assms(1) m]
  from assms(3,4,5) have "stages_ok c (init_state c)" by (simp add: init_stages_ok)
  from run_steps_stages [OF r this c0 init_refs_ok m]
  have inv: "stages_ok c sf" "clock_ok sf" "refs_ok sf" by simp_all
  from inv(2) have b: "0 \<le> totalMouldingBusyTime sf" "0 \<le> totalInspectionBusyTime sf"
    "0 \<le> totalPackagingBusyTime sf" by (simp_all add: clock_ok_def)
  note ub = busy_bounded [OF inv]
  from assms(2,3,4,5) have d: "0 < duration c * real_of_int (mouldingMachines c)"
    "0 < duration c * real_of_int (inspectionStations c)"
    "0 < duration c * real_of_int (packagingMachines c)" by simp_all
  have u: "machineUtilization_moulding (run_stats c sf)
           = totalMouldingBusyTime sf / (duration c * real_of_int (mouldingMachines c))"
    "machineUtilization_inspection (run_stats c sf)
           = totalInspectionBusyTime sf / (duration c * real_of_int (inspectionStations c))"
    "machineUtilization_packaging (run_stats c sf)
           = totalPackagingBusyTime sf / (duration c * real_of_int (packagingMachines c))"
    using d by (simp_all add: run_stats_def Let_def safeDiv_def)
  from b d have lo: "0 \<le> totalMouldingBusyTime sf / (duration c * real_of_int (mouldingMachines c))"
    "0 \<le> totalInspectionBusyTime sf / (duration c * real_of_int (inspectionStations c))"
    "0 \<le> totalPackagingBusyTime sf / (duration c * real_of_int (packagingMachines c))"
    by (simp_all add: zero_le_divide_iff)
  have q: "x / (duration c * k) \<le> t / duration c" if "x \<le> k * t" and "0 < k" for x k t :: real
  proof -
    have e: "x / (duration c * k) = (x / k) / duration c" by simp
    from that have "x / k \<le> t" by (simp add: pos_divide_le_eq mult.commute)
    with assms(2) have "(x / k) / duration c \<le> t / duration c"
      by (intro divide_right_mono) simp_all
    with e show ?thesis by (simp only:)
  qed
  from assms(3,4,5) have hi:
    "totalMouldingBusyTime sf / (duration c * real_of_int (mouldingMachines c))
       \<le> currentTime sf / duration c"
    "totalInspectionBusyTime sf / (duration c * real_of_int (inspectionStations c))
       \<le> currentTime sf / duration c"
    "totalPackagingBusyTime sf / (duration c * real_of_int (packagingMachines c))
       \<le> currentTime sf / duration c"
    by (simp_all add: q [OF ub(1)] q [OF ub(2)] q [OF ub(3)])
  from u lo hi show ?thesis by simp
qed

text \<open>
  C3. With positive duration and server counts the utilization of each stage is to lie
  between 0 and 1. The code breaks this on the run of \<open>exA\<close>, where duration and server
  counts are positive: the moulding utilization it reports is 28 or more. The busy time of
  the one moulding machine is the service time of the one job, which is less than the
  final clock, and the final clock is beyond the duration.
\<close>

theorem utilization_counterexample:
  "runSingleSimulation exA = Some (Inr (run_stats exA exA_final))
   \<and> 0 < duration exA
   \<and> 0 < mouldingMachines exA \<and> 0 < inspectionStations exA \<and> 0 < packagingMachines exA
   \<and> machineUtilization_moulding (run_stats exA exA_final)
       = totalMouldingBusyTime exA_final / (duration exA * real_of_int (mouldingMachines exA))
   \<and> 28 \<le> machineUtilization_moulding (run_stats exA exA_final)
   \<and> totalMouldingBusyTime exA_final \<le> currentTime exA_final
   \<and> duration exA < currentTime exA_final"
proof -
  have u: "machineUtilization_moulding (run_stats exA exA_final) = exA_y4 * 2"
    by (simp add: run_stats_def Let_def safeDiv_def exA_fields exA_final_def)
  have f: "machineUtilization_moulding (run_stats exA exA_final)
       = totalMouldingBusyTime exA_final / (duration exA * real_of_int (mouldingMachines exA))"
  proof -
    have "totalMouldingBusyTime exA_final = exA_y4" by (simp add: exA_final_def)
    then show ?thesis by (simp add: u exA_fields)
  qed
  from u exA_y4_bounds have b: "28 \<le> machineUtilization_moulding (run_stats exA exA_final)"
    by simp
  have t: "totalMouldingBusyTime exA_final \<le> currentTime exA_final"
    using exA_t1_bounds by (simp add: exA_final_def)
  have d: "duration exA < currentTime exA_final"
    using exA_t1_bounds exA_y4_bounds by (simp add: exA_final_def exA_fields)
  have h: "0 < duration exA" "0 < mouldingMachines exA" "0 < inspectionStations exA"
    "0 < packagingMachines exA" by (simp_all add: exA_fields)
  from exA_single h f b t d show ?thesis by blast
qed

text \<open>
  In a completed run from a non-negative seed every timestamp that is set is positive,
  and the total degradation cost is the sum, over exactly the jobs whose inspection start
  is set, of \<open>max 0 ((inspectionStart - mouldingEnd) - threshold) * costPerMinute\<close>; the
  average cost per part is this total divided by the number of all jobs created, and 0
  when there is none.
\<close>

lemma degradation_cost_total:
  assumes "0 \<le> seed c" and "loop c (init_state c) = Some (Inr sf)"
  shows "totalDegradationCost (run_stats c sf)
           = sum_list (map (\<lambda>b. max 0 (inspection_wait b - degradationThreshold c)
                                  * degradationCostPerMinute c)
                           (filter reached_inspection (jobs sf)))
       \<and> (\<forall>b \<in> set (jobs sf). reached_inspection b \<longrightarrow> mouldingEndTime b \<noteq> None)
       \<and> totalJobs (run_stats c sf) = int (length (jobs sf))
       \<and> avgDegradationCostPerPart (run_stats c sf)
           = (if jobs sf = [] then 0
              else totalDegradationCost (run_stats c sf) / real (length (jobs sf)))"
proof -
  have st: "\<forall>b \<in> set (jobs sf). stamps_pos b"
  proof (cases "0 < duration c")
    case True
    from loop_returns_mean [OF assms(1) True assms(2)] have m: "0 < arrivalIntervalMean c" .
    from loop_run_steps [OF assms(2)] obtain evs where "run_steps c (init_state c) evs sf"
      by blast
    from run_stamps_pos [OF assms(1) m this] show ?thesis .
  next
    case False
    from loop_zero_duration [OF assms(2) False] show ?thesis by (simp add: init_state_fields)
  qed
  have t: "totalDegradationCost (run_stats c sf) = sum_list (map (degradation c) (jobs sf))"
    by (simp add: run_stats_def Let_def)
  have a: "avgDegradationCostPerPart (run_stats c sf)
      = safeDiv (sum_list (map (degradation c) (jobs sf))) (real (length (jobs sf)))"
    by (simp add: run_stats_def Let_def)
  have n: "totalJobs (run_stats c sf) = int (length (jobs sf))"
    by (simp add: run_stats_def Let_def)
  from st have r: "\<forall>b \<in> set (jobs sf). reached_inspection b \<longrightarrow> mouldingEndTime b \<noteq> None"
    by (auto simp: stamps_pos_def reached_inspection_def moulded_def split: option.splits)
  from t a n r total_degradation_stamped [OF st, of c] show ?thesis
    by (simp add: safeDiv_def)
qed

text \<open>
  C6. The total degradation cost is to be the sum, over exactly the jobs whose inspection
  start is set, of \<open>max 0 ((inspectionStart - mouldingEnd) - threshold) * costPerMinute\<close>.
  The code breaks this on the run of \<open>exC\<close>, with threshold 0 and cost 1 per minute: both
  jobs of the run have reached inspection; the first finished moulding at time 0 and
  started inspection at \<open>exC_t5\<close>, after a wait of \<open>exC_t5\<close>, more than half a minute, and
  the second waited 0, so that the sum is \<open>exC_t5\<close>. The code tests the two timestamps for
  truthiness, takes the moulding end 0 of the first job for a timestamp that is not set,
  leaves the job out, and reports the total 0 and the average 0.
\<close>

theorem degradation_counterexample:
  "runSingleSimulation exC = Some (Inr (run_stats exC exC_final))
   \<and> filter reached_inspection (jobs exC_final) = jobs exC_final
   \<and> map mouldingEndTime (jobs exC_final) = [Some 0, Some exC_t3]
   \<and> map inspectionStartTime (jobs exC_final) = [Some exC_t5, Some exC_t3]
   \<and> sum_list (map (\<lambda>b. max 0 (inspection_wait b - degradationThreshold exC)
                            * degradationCostPerMinute exC)
                     (filter reached_inspection (jobs exC_final))) = exC_t5
   \<and> 67 / 100 \<le> exC_t5
   \<and> totalDegradationCost (run_stats exC exC_final) = 0
   \<and> avgDegradationCostPerPart (run_stats exC exC_final) = 0"
proof -
  have t3: "exC_t3 \<noteq> 0" using exC_t3_bounds by simp
  have t5: "0 \<le> exC_t5" using exC_t5_bounds by simp
  have f: "filter reached_inspection (jobs exC_final) = jobs exC_final"
    by (simp add: exC_final_def exC_job0_def exC_job1_def reached_inspection_def)
  have m: "map mouldingEndTime (jobs exC_final) = [Some 0, Some exC_t3]"
    by (simp add: exC_final_def exC_job0_def exC_job1_def)
  have i: "map inspectionStartTime (jobs exC_final) = [Some exC_t5, Some exC_t3]"
    by (simp add: exC_final_def exC_job0_def exC_job1_def)
  have "sum_list (map (\<lambda>b. max 0 (inspection_wait b - degradationThreshold exC)
                            * degradationCostPerMinute exC) (jobs exC_final)) = exC_t5"
    using t5 by (simp add: exC_final_def exC_job0_def exC_job1_def inspection_wait_def exC_fields)
  then have s: "sum_list (map (\<lambda>b. max 0 (inspection_wait b - degradationThreshold exC)
                            * degradationCostPerMinute exC)
                     (filter reached_inspection (jobs exC_final))) = exC_t5"
    by (simp only: f)
  have d: "totalDegradationCost (run_stats exC exC_final) = 0"
    using t3 by (simp add: run_stats_def Let_def exC_final_def exC_job0_def exC_job1_def
        degradation_def wait_i_def exC_fields)
  have a: "avgDegradationCostPerPart (run_stats exC exC_final) = 0"
    using t3 by (simp add: run_stats_def Let_def exC_final_def exC_job0_def exC_job1_def
        degradation_def wait_i_def exC_fields safeDiv_def)
  from exC_single f m i s exC_t5_bounds d a show ?thesis by (simp only: simp_thms)
qed

section \<open>Replications\<close>

lemma loop_transfer:
  assumes d: "duration c' = duration c"
    and p: "\<And>ev s. process_event c' ev s = process_event c ev s"
    and l: "loop c' s = Some y"
  shows "loop c s = Some y"
proof -
  have "c' = c' \<longrightarrow> loop c s = Some y"
  proof (rule loop.raw_induct [where P = "\<lambda>d s y. d = c' \<longrightarrow> loop c s = Some y", OF _ l])
    fix lp d s y
    assume ih: "\<And>d' s' y'. lp d' s' = Some y' \<Longrightarrow> d' = c' \<longrightarrow> loop c s' = Some y'"
    assume body: "(case queue s of [] \<Rightarrow> Some (Inr s)
          | ev # rest \<Rightarrow>
              if currentTime s < duration d
              then case process_event d ev (s\<lparr>queue := rest\<rparr>) of Inl e \<Rightarrow> Some (Inl e)
                   | Inr s' \<Rightarrow> lp d s'
              else Some (Inr s)) = Some y"
    show "d = c' \<longrightarrow> loop c s = Some y"
    proof
      assume dc: "d = c'"
      show "loop c s = Some y"
      proof (cases "queue s")
        case Nil
        with body show ?thesis by (subst loop.simps) simp
      next
        case (Cons ev rest)
        show ?thesis
        proof (cases "currentTime s < duration c")
          case False
          with body Cons dc d show ?thesis by (subst loop.simps) simp
        next
          case True
          show ?thesis
          proof (cases "process_event c ev (s\<lparr>queue := rest\<rparr>)")
            case (Inl e)
            with body Cons dc d p True have "y = Inl e" by simp
            with Cons True Inl show ?thesis by (subst loop.simps) simp
          next
            case (Inr s')
            with body Cons dc d p True have "lp d s' = Some y" by simp
            from ih [OF this] dc have "loop c s' = Some y" by simp
            with Cons True Inr show ?thesis by (subst loop.simps) simp
          qed
        qed
      qed
    qed
  qed
  then show ?thesis by simp
qed

lemma degradation_replications: "degradation (c\<lparr>replications := r\<rparr>) = degradation c"
  by (rule ext) (simp add: degradation_def)

lemma run_stats_replications: "run_stats (c\<lparr>replications := r\<rparr>) s = run_stats c s"
  by (simp add: run_stats_def degradation_replications Let_def cong: if_cong)


lemma on_arrival_replications: "on_arrival (c\<lparr>replications := r\<rparr>) = on_arrival c"
  by (rule ext) (simp add: on_arrival_def schedule_next_arrival_def)

lemma process_event_replications:
  "process_event (c\<lparr>replications := r\<rparr>) ev s = process_event c ev s"
  unfolding process_event_def on_arrival_replications ..

lemma loop_replications: "loop (c\<lparr>replications := r\<rparr>) s = loop c s"
proof (cases "loop c s")
  case None
  show ?thesis
  proof (cases "loop (c\<lparr>replications := r\<rparr>) s")
    case None
    with \<open>loop c s = None\<close> show ?thesis by simp
  next
    case (Some y)
    have "loop c s = Some y"
      by (rule loop_transfer [OF _ _ Some]) (simp_all add: process_event_replications)
    with None show ?thesis by simp
  qed
next
  case (Some y)
  have "loop (c\<lparr>replications := r\<rparr>) s = Some y"
    by (rule loop_transfer [OF _ _ Some]) (simp_all add: process_event_replications)
  with Some show ?thesis by simp
qed

lemma init_state_replications: "init_state (c\<lparr>replications := r\<rparr>) = init_state c"
  by (simp add: init_state_def)

lemma nan_stats_replications: "nan_stats (c\<lparr>replications := r\<rparr>) = nan_stats c"
  by (simp add: nan_stats_def)

lemma runSingleSimulation_replications:
  "runSingleSimulation (c\<lparr>replications := r\<rparr>) = runSingleSimulation c"
  unfolding runSingleSimulation_def loop_replications init_state_replications
    run_stats_replications nan_stats_replications by simp

lemma collect_single: "collect [x] = (case x of None \<Rightarrow> None | Some (Inl e) \<Rightarrow> Some (Inl e)
    | Some (Inr r) \<Rightarrow> Some (Inr [r]))"
  by (cases x) (auto split: sum.splits)

lemma run_one_replication:
  assumes "replications c \<le> 1"
  shows "run c = runSingleSimulation c"
proof -
  from assms have n: "nat (max 1 (replications c)) = 1" by simp
  have u: "[0..<1] = [0]" by simp
  have r: "replication c 0 = runSingleSimulation c" by (simp add: replication_def)
  show ?thesis
    by (simp add: run_def n u r collect_single split: option.splits sum.splits)
qed












text \<open>
  C8. With \<open>replications = 1\<close> the result of \<^verbatim>\<open>run\<close> is the result of the single run, and
  in the statistics it returns both confidence intervals are the point estimate three
  times.
\<close>

theorem single_replication_verbatim:
  assumes "replications c = 1"
  shows "run c = runSingleSimulation c
       \<and> (\<forall>st. run c = Some (Inr st) \<longrightarrow>
            leadTimeCI st = \<lparr>mean = avgLeadTime st, lower = avgLeadTime st, upper = avgLeadTime st\<rparr>
          \<and> costCI st = \<lparr>mean = avgDegradationCostPerPart st,
                          lower = avgDegradationCostPerPart st,
                          upper = avgDegradationCostPerPart st\<rparr>)"
proof -
  have r: "run c = runSingleSimulation c"
    by (rule run_one_replication) (simp add: assms)
  have "leadTimeCI st = \<lparr>mean = avgLeadTime st, lower = avgLeadTime st, upper = avgLeadTime st\<rparr>
      \<and> costCI st = \<lparr>mean = avgDegradationCostPerPart st,
                      lower = avgDegradationCostPerPart st,
                      upper = avgDegradationCostPerPart st\<rparr>"
    if "runSingleSimulation c = Some (Inr st)" for st
  proof -
    from that have "st = nan_stats c \<or> (\<exists>s. st = run_stats c s)"
      by (auto simp: runSingleSimulation_def split: option.splits sum.splits)
    then show ?thesis by (auto simp: run_stats_def Let_def nan_stats_def zero_stats_def)
  qed
  with r show ?thesis by simp
qed

theorem single_replication_verbatim_witness:
  "replications exA = 1
   \<and> run exA = Some (Inr (run_stats exA exA_final))
   \<and> leadTimeCI (run_stats exA exA_final) = \<lparr>mean = 0, lower = 0, upper = 0\<rparr>
   \<and> costCI (run_stats exA exA_final) = \<lparr>mean = 0, lower = 0, upper = 0\<rparr>"
proof -
  have h: "replications exA = 1" by (simp add: exA_def)
  have a: "avgLeadTime (run_stats exA exA_final) = 0"
    by (simp add: run_stats_def Let_def exA_final_def exA_job0_def leadTime_def safeDiv_def)
  have b: "avgDegradationCostPerPart (run_stats exA exA_final) = 0"
    by (simp add: run_stats_def Let_def exA_final_def exA_job0_def degradation_def wait_i_def
        safeDiv_def exA_fields)
  from single_replication_verbatim [OF h] show ?thesis
    using h a b by (simp add: exA_single)
qed

text \<open>
  C10. With a replication count of zero or below, \<^verbatim>\<open>run\<close> executes exactly one
  replication, the single run of the configuration itself, and returns what it returns,
  as it does for the same configuration with \<open>replications = 1\<close>; no call of \<^verbatim>\<open>run\<close>
  ends in an error.
\<close>

theorem nonpositive_replications_clamped:
  assumes "replications c \<le> 0"
  shows "map (replication c) [0..<nat (max 1 (replications c))] = [runSingleSimulation c]
       \<and> run c = runSingleSimulation c
       \<and> run c = run (c\<lparr>replications := 1\<rparr>)
       \<and> run c \<noteq> Some (Inl e)"
proof -
  from assms have n: "nat (max 1 (replications c)) = 1" by simp
  have u: "[0..<1] = [0]" by simp
  have a: "map (replication c) [0..<nat (max 1 (replications c))] = [runSingleSimulation c]"
    by (simp add: n u replication_def)
  have b: "run c = runSingleSimulation c"
    by (rule run_one_replication) (use assms in simp)
  have "run (c\<lparr>replications := 1\<rparr>) = runSingleSimulation (c\<lparr>replications := 1\<rparr>)"
    by (rule run_one_replication) simp
  then have d: "run (c\<lparr>replications := 1\<rparr>) = runSingleSimulation c"
    by (simp only: runSingleSimulation_replications)
  from a b d runSingleSimulation_no_error [of c e] show ?thesis by simp
qed

theorem nonpositive_replications_clamped_witness:
  "replications (exA\<lparr>replications := - 3\<rparr>) \<le> 0
   \<and> run (exA\<lparr>replications := - 3\<rparr>) = Some (Inr (run_stats exA exA_final))
   \<and> run (exA\<lparr>replications := 1\<rparr>) = Some (Inr (run_stats exA exA_final))"
proof -
  have h: "replications (exA\<lparr>replications := - 3\<rparr>) \<le> 0" by simp
  have r: "runSingleSimulation (exA\<lparr>replications := - 3\<rparr>) = Some (Inr (run_stats exA exA_final))"
    by (simp only: runSingleSimulation_replications exA_single)
  note t = nonpositive_replications_clamped [OF h, where e = TypeError]
  from t r have a: "run (exA\<lparr>replications := - 3\<rparr>) = Some (Inr (run_stats exA exA_final))"
    by simp
  have eq: "exA\<lparr>replications := - 3, replications := 1\<rparr> = exA\<lparr>replications := 1\<rparr>"
    by simp
  from t have "run (exA\<lparr>replications := - 3\<rparr>)
      = run (exA\<lparr>replications := - 3, replications := 1\<rparr>)" by blast
  then have "run (exA\<lparr>replications := - 3\<rparr>) = run (exA\<lparr>replications := 1\<rparr>)"
    by (simp only: eq)
  from this [symmetric] a have b: "run (exA\<lparr>replications := 1\<rparr>) = Some (Inr (run_stats exA exA_final))"
    by (rule trans)
  from h a b show ?thesis by blast
qed


section \<open>The event scheduler\<close>

text \<open>
  C4. After every \<^verbatim>\<open>schedule\<close> the queue is in non-decreasing time order, and the events
  of any one timestamp \<open>k\<close> are in it in the order in which they were scheduled (the new
  event after the earlier ones). The loop always takes the head of the queue; right after
  a \<^verbatim>\<open>schedule\<close> that is an event of the least timestamp, and among the events of that
  timestamp the one scheduled first.
\<close>

theorem schedule_stable_order:
  "sorted (map time (schedule ty t j q))
   \<and> filter (\<lambda>e. time e = k) (schedule ty t j q)
       = filter (\<lambda>e. time e = k) (q @ [\<lparr>time = t, type = ty, job = j\<rparr>])
   \<and> (schedule ty t j q = ev # rest \<longrightarrow>
        (\<forall>e \<in> set rest. time ev \<le> time e)
      \<and> filter (\<lambda>e. time e = time ev) (q @ [\<lparr>time = t, type = ty, job = j\<rparr>])
          = ev # filter (\<lambda>e. time e = time ev) rest)
   \<and> (queue s = ev # rest \<and> currentTime s < duration c \<longrightarrow>
        loop c s = (case process_event c ev (s\<lparr>queue := rest\<rparr>) of
                      Inl e \<Rightarrow> Some (Inl e) | Inr s' \<Rightarrow> loop c s'))"
proof -
  let ?new = "\<lparr>time = t, type = ty, job = j\<rparr>"
  have srt: "sorted (map time (schedule ty t j q))"
    by (simp add: schedule_def)
  have stab: "filter (\<lambda>e. time e = k) (schedule ty t j q) = filter (\<lambda>e. time e = k) (q @ [?new])"
    for k unfolding schedule_def by (rule sort_key_stable)
  have hd: "(\<forall>e \<in> set rest. time ev \<le> time e)
      \<and> filter (\<lambda>e. time e = time ev) (q @ [?new]) = ev # filter (\<lambda>e. time e = time ev) rest"
    if eq: "schedule ty t j q = ev # rest"
  proof -
    from srt eq have "\<forall>e \<in> set rest. time ev \<le> time e" by simp
    moreover from stab [of "time ev", symmetric] eq
    have "filter (\<lambda>e. time e = time ev) (q @ [?new]) = ev # filter (\<lambda>e. time e = time ev) rest"
      by simp
    ultimately show ?thesis by simp
  qed
  have lp: "loop c s = (case process_event c ev (s\<lparr>queue := rest\<rparr>) of
                      Inl e \<Rightarrow> Some (Inl e) | Inr s' \<Rightarrow> loop c s')"
    if "queue s = ev # rest \<and> currentTime s < duration c"
    using that by (subst loop.simps) simp
  from srt stab hd lp show ?thesis by blast
qed

theorem schedule_stable_order_witness:
  "schedule PACKAGING_FINISH 1 (Some 2)
      [\<lparr>time = 1, type = ARRIVAL, job = None\<rparr>, \<lparr>time = 1, type = MOULDING_FINISH, job = Some 0\<rparr>,
       \<lparr>time = 2, type = INSPECTION_FINISH, job = Some 1\<rparr>]
    = [\<lparr>time = 1, type = ARRIVAL, job = None\<rparr>, \<lparr>time = 1, type = MOULDING_FINISH, job = Some 0\<rparr>,
       \<lparr>time = 1, type = PACKAGING_FINISH, job = Some 2\<rparr>,
       \<lparr>time = 2, type = INSPECTION_FINISH, job = Some 1\<rparr>]
   \<and> filter (\<lambda>e. time e = 1)
       ([\<lparr>time = 1, type = ARRIVAL, job = None\<rparr>, \<lparr>time = 1, type = MOULDING_FINISH, job = Some 0\<rparr>,
         \<lparr>time = 2, type = INSPECTION_FINISH, job = Some 1\<rparr>]
        @ [\<lparr>time = 1, type = PACKAGING_FINISH, job = Some 2\<rparr>])
     = \<lparr>time = 1, type = ARRIVAL, job = None\<rparr>
       # filter (\<lambda>e. time e = 1)
           [\<lparr>time = 1, type = MOULDING_FINISH, job = Some 0\<rparr>,
            \<lparr>time = 1, type = PACKAGING_FINISH, job = Some 2\<rparr>,
            \<lparr>time = 2, type = INSPECTION_FINISH, job = Some 1\<rparr>]
   \<and> queue (init_state exA) = [exA_e1ev] \<and> currentTime (init_state exA) < duration exA
   \<and> loop exA (init_state exA) = loop exA exA_s1"
proof -
  let ?q = "[\<lparr>time = 1, type = ARRIVAL, job = None\<rparr>, \<lparr>time = 1, type = MOULDING_FINISH, job = Some 0\<rparr>,
       \<lparr>time = 2, type = INSPECTION_FINISH, job = Some 1\<rparr>]"
  have e: "schedule PACKAGING_FINISH 1 (Some 2) ?q
    = [\<lparr>time = 1, type = ARRIVAL, job = None\<rparr>, \<lparr>time = 1, type = MOULDING_FINISH, job = Some 0\<rparr>,
       \<lparr>time = 1, type = PACKAGING_FINISH, job = Some 2\<rparr>,
       \<lparr>time = 2, type = INSPECTION_FINISH, job = Some 1\<rparr>]"
    by (simp add: schedule_def)
  have q0: "queue (init_state exA) = [exA_e1ev]" by (simp add: exA_init)
  have g0: "currentTime (init_state exA) < duration exA" by (simp add: exA_init exA_fields)
  from schedule_stable_order [of PACKAGING_FINISH 1 "Some 2" ?q 1
      "\<lparr>time = 1, type = ARRIVAL, job = None\<rparr>"
      "[\<lparr>time = 1, type = MOULDING_FINISH, job = Some 0\<rparr>,
        \<lparr>time = 1, type = PACKAGING_FINISH, job = Some 2\<rparr>,
        \<lparr>time = 2, type = INSPECTION_FINISH, job = Some 1\<rparr>]"]
    schedule_stable_order [of ARRIVAL 0 None "[]" 0 exA_e1ev "[]" "init_state exA" exA]
  show ?thesis using e q0 g0 exA_step1 by simp
qed


end
